theory Spec2Isabelle
  imports Complex_Main "HOL-Library.Product_Lexorder" "HOL-Library.Multiset"
begin

section \<open>Numbers\<close>

text \<open>
  The source computes with IEEE floating-point numbers (numpy \<open>float64\<close>). A number is
  modelled as an exact real, one of the two infinities, or NaN. Rounding and the sign of
  zero are not modelled: finite arithmetic is exact, and a division by zero gives an
  infinity or NaN as numpy does (a warning, no exception).
\<close>

datatype pynum = NInf | Fin real | PInf | NaN

fun neg :: "pynum \<Rightarrow> pynum" where
  "neg NInf = PInf"
| "neg (Fin x) = Fin (- x)"
| "neg PInf = NInf"
| "neg NaN = NaN"

fun add :: "pynum \<Rightarrow> pynum \<Rightarrow> pynum" where
  "add NaN _ = NaN"
| "add _ NaN = NaN"
| "add (Fin x) (Fin y) = Fin (x + y)"
| "add PInf NInf = NaN"
| "add NInf PInf = NaN"
| "add PInf _ = PInf"
| "add _ PInf = PInf"
| "add NInf _ = NInf"
| "add _ NInf = NInf"

definition sub :: "pynum \<Rightarrow> pynum \<Rightarrow> pynum" where
  "sub a b = add a (neg b)"

fun mul :: "pynum \<Rightarrow> pynum \<Rightarrow> pynum" where
  "mul NaN _ = NaN"
| "mul _ NaN = NaN"
| "mul (Fin x) (Fin y) = Fin (x * y)"
| "mul PInf (Fin y) = (if 0 < y then PInf else if y < 0 then NInf else NaN)"
| "mul NInf (Fin y) = (if 0 < y then NInf else if y < 0 then PInf else NaN)"
| "mul (Fin x) PInf = (if 0 < x then PInf else if x < 0 then NInf else NaN)"
| "mul (Fin x) NInf = (if 0 < x then NInf else if x < 0 then PInf else NaN)"
| "mul PInf PInf = PInf"
| "mul NInf NInf = PInf"
| "mul PInf NInf = NInf"
| "mul NInf PInf = NInf"

fun divide_num :: "pynum \<Rightarrow> pynum \<Rightarrow> pynum" where
  "divide_num NaN _ = NaN"
| "divide_num _ NaN = NaN"
| "divide_num (Fin x) (Fin y) =
     (if y \<noteq> 0 then Fin (x / y)
      else if 0 < x then PInf else if x < 0 then NInf else NaN)"
| "divide_num (Fin x) _ = Fin 0"
| "divide_num PInf (Fin y) = (if 0 \<le> y then PInf else NInf)"
| "divide_num NInf (Fin y) = (if 0 \<le> y then NInf else PInf)"
| "divide_num _ _ = NaN"

text \<open>
  \<open>sort_rank\<close> is the order in which \<open>np.sort\<close> arranges numbers: NaN comes last.
  The comparisons of the language are false as soon as one side is NaN.
\<close>

fun sort_rank :: "pynum \<Rightarrow> nat \<times> real" where
  "sort_rank NInf = (0, 0)"
| "sort_rank (Fin x) = (1, x)"
| "sort_rank PInf = (2, 0)"
| "sort_rank NaN = (3, 0)"

definition lt :: "pynum \<Rightarrow> pynum \<Rightarrow> bool" where
  "lt a b = (a \<noteq> NaN \<and> b \<noteq> NaN \<and> sort_rank a < sort_rank b)"

definition le :: "pynum \<Rightarrow> pynum \<Rightarrow> bool" where
  "le a b = (a \<noteq> NaN \<and> b \<noteq> NaN \<and> sort_rank a \<le> sort_rank b)"

definition gt :: "pynum \<Rightarrow> pynum \<Rightarrow> bool" where
  "gt a b = lt b a"

definition ge :: "pynum \<Rightarrow> pynum \<Rightarrow> bool" where
  "ge a b = le b a"

definition ne :: "pynum \<Rightarrow> pynum \<Rightarrow> bool" where
  "ne a b = (a = NaN \<or> b = NaN \<or> a \<noteq> b)"

text \<open>The builtins \<open>max(x, y)\<close> and \<open>min(x, y)\<close>: the first argument stays unless the
  second one compares strictly beyond it.\<close>

definition py_max :: "pynum \<Rightarrow> pynum \<Rightarrow> pynum" where
  "py_max x y = (if gt y x then y else x)"

definition py_min :: "pynum \<Rightarrow> pynum \<Rightarrow> pynum" where
  "py_min x y = (if lt y x then y else x)"

definition fabs :: "pynum \<Rightarrow> pynum" where
  "fabs x = (case x of NInf \<Rightarrow> PInf | Fin v \<Rightarrow> Fin \<bar>v\<bar> | PInf \<Rightarrow> PInf | NaN \<Rightarrow> NaN)"

definition np_sort :: "pynum list \<Rightarrow> pynum list" where
  "np_sort xs = sort_key sort_rank xs"

definition np_sum :: "pynum list \<Rightarrow> pynum" where
  "np_sum xs = foldl add (Fin 0) xs"

fun cumsum_from :: "pynum \<Rightarrow> pynum list \<Rightarrow> pynum list" where
  "cumsum_from acc [] = []"
| "cumsum_from acc (x # xs) = add acc x # cumsum_from (add acc x) xs"

definition cumsum :: "pynum list \<Rightarrow> pynum list" where
  "cumsum xs = cumsum_from (Fin 0) xs"

definition np_mean2 :: "pynum \<times> pynum \<Rightarrow> pynum" where
  "np_mean2 ab = divide_num (add (fst ab) (snd ab)) (Fin 2)"

definition nonzero :: "bool list \<Rightarrow> nat list" where
  "nonzero bs = filter (\<lambda>i. bs ! i) [0..<length bs]"

section \<open>Errors and the numeric primitives\<close>

datatype error =
    NotDisjoint
  | NotInSupport
  | ReshapeError
  | EmptyMax
  | IndexError
  | BroadcastError
  | NameError
  | UnboundLocalError
  | PrimError

text \<open>
  \<open>_cdf\<close> wraps \<open>selection.intervals._CDF\<close>, which is not among the sources, and
  \<open>_dnorm\<close>, \<open>_qnorm\<close> wrap mpmath. The three are parameters of the model. The inverse
  error function raises outside its domain, so \<open>qnorm\<close> may fail.
\<close>

record prims =
  cdf :: "pynum \<Rightarrow> pynum \<Rightarrow> pynum"
  dnorm :: "pynum \<Rightarrow> pynum"
  qnorm :: "pynum \<Rightarrow> error + pynum"

section \<open>The class \<open>truncated_gaussian\<close>\<close>

text \<open>
  An object holds the attributes \<open>_cutoff_array\<close>, \<open>_mu\<close>, \<open>_sigma\<close>, \<open>P\<close>, \<open>D\<close> and,
  once \<open>negated\<close> has been read, \<open>_negated\<close>, a reference to another object.
\<close>

record truncated_gaussian =
  cutoff_array :: "pynum list"
  mu :: pynum
  sigma :: pynum
  P :: "pynum list"
  D :: "(pynum \<times> pynum) list"
  negated_attr :: "nat option"

fun pairs :: "'a list \<Rightarrow> ('a \<times> 'a) list" where
  "pairs (a # b # xs) = (a, b) # pairs xs"
| "pairs _ = []"

fun ravel :: "('a \<times> 'a) list \<Rightarrow> 'a list" where
  "ravel [] = []"
| "ravel ((a, b) # ivs) = a # b # ravel ivs"

text \<open>\<open>reshape((-1,2))\<close> raises on an array of odd length.\<close>

definition reshape2 :: "pynum list \<Rightarrow> error + (pynum \<times> pynum) list" where
  "reshape2 c = (if even (length c) then Inr (pairs c) else Inl ReshapeError)"

definition intervals :: "truncated_gaussian \<Rightarrow> error + (pynum \<times> pynum) list" where
  "intervals t = reshape2 (cutoff_array t)"

definition standardize :: "truncated_gaussian \<Rightarrow> pynum \<Rightarrow> pynum" where
  "standardize t a = divide_num (sub a (mu t)) (sigma t)"

definition mu_or_sigma_changed :: "prims \<Rightarrow> truncated_gaussian \<Rightarrow> error + truncated_gaussian" where
  "mu_or_sigma_changed pr t =
     (case intervals t of
        Inl e \<Rightarrow> Inl e
      | Inr ivs \<Rightarrow>
          Inr (t\<lparr>P := map (\<lambda>(a, b). cdf pr (standardize t a) (standardize t b)) ivs,
                 D := map (\<lambda>(a, b). (dnorm pr (standardize t a), dnorm pr (standardize t b))) ivs\<rparr>))"

text \<open>
  \<open>__init__\<close>, on the flattened argument \<open>np.asarray(intervals).reshape(-1)\<close>: the
  endpoints are sorted as one array, paired again, and the pairs whose difference is
  \<open>!= 0\<close> are kept.
\<close>

definition init :: "prims \<Rightarrow> pynum list \<Rightarrow> pynum \<Rightarrow> pynum \<Rightarrow> error + truncated_gaussian" where
  "init pr flat mu0 sigma0 =
     (case reshape2 (np_sort flat) of
        Inl e \<Rightarrow> Inl e
      | Inr ivs \<Rightarrow>
          mu_or_sigma_changed pr
            \<lparr>cutoff_array = ravel (filter (\<lambda>(a, b). ne (sub b a) (Fin 0)) ivs),
             mu = mu0, sigma = sigma0, P = [], D = [], negated_attr = None\<rparr>)"

definition set_mu :: "prims \<Rightarrow> truncated_gaussian \<Rightarrow> pynum \<Rightarrow> error + truncated_gaussian" where
  "set_mu pr t v = mu_or_sigma_changed pr (t\<lparr>mu := v\<rparr>)"

definition set_sigma :: "prims \<Rightarrow> truncated_gaussian \<Rightarrow> pynum \<Rightarrow> error + truncated_gaussian" where
  "set_sigma pr t v = mu_or_sigma_changed pr (t\<lparr>sigma := v\<rparr>)"

text \<open>The property \<open>delta\<close>. \<open>D[:,0]\<close> raises on the one-dimensional empty array that an
  object without intervals holds; arrays of different lengths do not combine.\<close>

definition delta :: "truncated_gaussian \<Rightarrow> error + pynum list" where
  "delta t =
     (if D t = [] then Inl IndexError
      else if length (P t) \<noteq> length (D t) then Inl BroadcastError
      else Inr (map (\<lambda>(d, p). add (sub (fst d) (snd d)) (mul (mu t) p)) (zip (D t) (P t))))"

definition twosided :: "prims \<Rightarrow> pynum \<Rightarrow> pynum \<Rightarrow> pynum \<Rightarrow> error + truncated_gaussian" where
  "twosided pr thresh mu0 sigma0 =
     init pr (ravel [(NInf, neg (fabs thresh)), (fabs thresh, PInf)]) mu0 sigma0"

definition find_interval :: "truncated_gaussian \<Rightarrow> pynum \<Rightarrow> error + nat" where
  "find_interval t x =
     (case intervals t of
        Inl e \<Rightarrow> Inl e
      | Inr ivs \<Rightarrow>
          (let k = nonzero (map (\<lambda>(a, b). ge x a \<and> lt x b) ivs) in
           if 1 < length k then Inl NotDisjoint
           else if length k = 0 then Inl NotInSupport
           else Inr (k ! 0)))"

definition CDF :: "prims \<Rightarrow> truncated_gaussian \<Rightarrow> pynum \<Rightarrow> error + pynum" where
  "CDF pr t x =
     (case find_interval t x of
        Inl e \<Rightarrow> Inl e
      | Inr k \<Rightarrow>
          (case intervals t of
             Inl e \<Rightarrow> Inl e
           | Inr ivs \<Rightarrow>
               if length ivs \<le> k then Inl IndexError
               else Inr (divide_num
                          (add (np_sum (take k (P t)))
                               (cdf pr (sub (fst (ivs ! k)) (mu t)) (sub x (mu t))))
                          (np_sum (P t)))))"

definition quantile :: "prims \<Rightarrow> truncated_gaussian \<Rightarrow> pynum \<Rightarrow> error + pynum" where
  "quantile pr t q =
     (let Psum = np_sum (P t);
          Csum = cumsum (Fin 0 # P t);
          ks = nonzero (map (\<lambda>c. lt c (mul Psum q)) Csum)
      in if ks = [] then Inl EmptyMax
         else
           (let k = Max (set ks);
                pnorm_increment = sub (mul Psum q) (Csum ! k)
            in case intervals t of
                 Inl e \<Rightarrow> Inl e
               | Inr ivs \<Rightarrow>
                   if length ivs \<le> k then Inl IndexError
                   else if lt (np_mean2 (ivs ! k)) (Fin 0)
                   then (case qnorm pr (add (cdf pr NInf (sub (fst (ivs ! k)) (mu t)))
                                            pnorm_increment) of
                           Inl e \<Rightarrow> Inl e
                         | Inr z \<Rightarrow> Inr (add (mu t) z))
                   else (case qnorm pr (sub (cdf pr (sub (fst (ivs ! k)) (mu t)) PInf)
                                            pnorm_increment) of
                           Inl e \<Rightarrow> Inl e
                         | Inr z \<Rightarrow> Inr (sub (mu t) z))))"

definition right_endpoint :: "prims \<Rightarrow> truncated_gaussian \<Rightarrow> pynum \<Rightarrow> pynum \<Rightarrow> error + pynum" where
  "right_endpoint pr t left_endpoint alpha =
     (case CDF pr t left_endpoint of
        Inl e \<Rightarrow> Inl e
      | Inr alpha1 \<Rightarrow>
          if gt alpha1 alpha then Inr NaN
          else quantile pr t (sub (Fin 1) (sub alpha alpha1)))"

definition G :: "prims \<Rightarrow> truncated_gaussian \<Rightarrow> pynum \<Rightarrow> pynum \<Rightarrow> error + pynum" where
  "G pr t left_endpoint alpha =
     (if D t = [] then Inl IndexError
      else
        (let const = mul (sub (Fin 1) alpha)
                         (add (np_sum (map (\<lambda>d. sub (fst d) (snd d)) (D t)))
                              (mul (mu t) (np_sum (P t))))
         in case right_endpoint pr t left_endpoint alpha of
              Inl e \<Rightarrow> Inl e
            | Inr re \<Rightarrow>
                (case intervals t of
                   Inl e \<Rightarrow> Inl e
                 | Inr ivs \<Rightarrow>
                     (let valid_intervals =
                            filter (\<lambda>i. gt (snd i) (fst i))
                              (map (\<lambda>(a, b). (py_max left_endpoint a, py_min re b)) ivs)
                      in if valid_intervals \<noteq> []
                         then (case init pr (ravel valid_intervals) (mu t) (sigma t) of
                                 Inl e \<Rightarrow> Inl e
                               | Inr t' \<Rightarrow>
                                   (case delta t' of
                                      Inl e \<Rightarrow> Inl e
                                    | Inr d \<Rightarrow> Inr (sub (np_sum d) const)))
                         else Inr (Fin 0)))))"

definition dG :: "prims \<Rightarrow> truncated_gaussian \<Rightarrow> pynum \<Rightarrow> pynum \<Rightarrow> error + pynum" where
  "dG pr t left_endpoint alpha =
     (case right_endpoint pr t left_endpoint alpha of
        Inl e \<Rightarrow> Inl e
      | Inr re \<Rightarrow> Inr (mul (sub re left_endpoint) (dnorm pr (standardize t left_endpoint))))"

section \<open>Objects in a store\<close>

text \<open>
  Python variables hold references. Where a function creates an object beside the one
  it was given, or an object refers to another, objects live in a store: a list of
  objects, a reference being an index, and a new object taking the next index.
\<close>

type_synonym store = "truncated_gaussian list"

definition new_object :: "prims \<Rightarrow> pynum list \<Rightarrow> pynum \<Rightarrow> pynum \<Rightarrow> store \<Rightarrow> store \<times> (error + nat)" where
  "new_object pr flat mu0 sigma0 st =
     (case init pr flat mu0 sigma0 of
        Inl e \<Rightarrow> (st, Inl e)
      | Inr t \<Rightarrow> (st @ [t], Inr (length st)))"

definition set_mu_at :: "prims \<Rightarrow> nat \<Rightarrow> pynum \<Rightarrow> store \<Rightarrow> store \<times> (error + unit)" where
  "set_mu_at pr r v st =
     (case set_mu pr (st ! r) v of
        Inl e \<Rightarrow> (st[r := (st ! r)\<lparr>mu := v\<rparr>], Inl e)
      | Inr t \<Rightarrow> (st[r := t], Inr ()))"

definition set_sigma_at :: "prims \<Rightarrow> nat \<Rightarrow> pynum \<Rightarrow> store \<Rightarrow> store \<times> (error + unit)" where
  "set_sigma_at pr r v st =
     (case set_sigma pr (st ! r) v of
        Inl e \<Rightarrow> (st[r := (st ! r)\<lparr>sigma := v\<rparr>], Inl e)
      | Inr t \<Rightarrow> (st[r := t], Inr ()))"

text \<open>The property \<open>negated\<close>: built on the first read, from the reversed and negated
  cutoffs and the parameters of that moment, and kept in \<open>_negated\<close>.\<close>

definition negated :: "prims \<Rightarrow> nat \<Rightarrow> store \<Rightarrow> store \<times> (error + nat)" where
  "negated pr r st =
     (case negated_attr (st ! r) of
        Some n \<Rightarrow> (st, Inr n)
      | None \<Rightarrow>
          (case new_object pr (map neg (rev (cutoff_array (st ! r)))) (mu (st ! r)) (sigma (st ! r)) st of
             (st', Inl e) \<Rightarrow> (st', Inl e)
           | (st', Inr n) \<Rightarrow> (st'[r := (st' ! r)\<lparr>negated_attr := Some n\<rparr>], Inr n)))"

section \<open>The module functions \<open>G\<close> and \<open>dG\<close>\<close>

text \<open>
  Both rebind \<open>tg\<close> to a new object built from \<open>tg.intervals\<close> alone, then set its
  \<open>mu\<close> and evaluate, pair after pair. \<open>w\<close> is the reference of the new object.
\<close>

fun G_loop :: "prims \<Rightarrow> (pynum \<times> pynum) list \<Rightarrow> pynum \<Rightarrow> nat \<Rightarrow> store \<Rightarrow> pynum list
    \<Rightarrow> store \<times> (error + pynum list)" where
  "G_loop pr [] alpha w st results = (st, Inr results)"
| "G_loop pr ((left_endpoint, m) # rest) alpha w st results =
     (case set_mu_at pr w m st of
        (st', Inl e) \<Rightarrow> (st', Inl e)
      | (st', Inr _) \<Rightarrow>
          (case G pr (st' ! w) left_endpoint alpha of
             Inl e \<Rightarrow> (st', Inl e)
           | Inr g \<Rightarrow> G_loop pr rest alpha w st' (results @ [g])))"

definition G_batch :: "prims \<Rightarrow> pynum list \<Rightarrow> pynum list \<Rightarrow> pynum \<Rightarrow> nat \<Rightarrow> store
    \<Rightarrow> store \<times> (error + pynum list)" where
  "G_batch pr left_endpoints mus alpha r st =
     (case intervals (st ! r) of
        Inl e \<Rightarrow> (st, Inl e)
      | Inr ivs \<Rightarrow>
          (case new_object pr (ravel ivs) (Fin 0) (Fin 1) st of
             (st', Inl e) \<Rightarrow> (st', Inl e)
           | (st', Inr w) \<Rightarrow> G_loop pr (zip left_endpoints mus) alpha w st' []))"

fun dG_loop :: "prims \<Rightarrow> (pynum \<times> pynum) list \<Rightarrow> pynum \<Rightarrow> nat \<Rightarrow> store \<Rightarrow> pynum list
    \<Rightarrow> store \<times> (error + pynum list)" where
  "dG_loop pr [] alpha w st results = (st, Inr results)"
| "dG_loop pr ((left_endpoint, m) # rest) alpha w st results =
     (case set_mu_at pr w m st of
        (st', Inl e) \<Rightarrow> (st', Inl e)
      | (st', Inr _) \<Rightarrow>
          (case dG pr (st' ! w) left_endpoint alpha of
             Inl e \<Rightarrow> (st', Inl e)
           | Inr g \<Rightarrow> dG_loop pr rest alpha w st' (results @ [g])))"

definition dG_batch :: "prims \<Rightarrow> pynum list \<Rightarrow> pynum list \<Rightarrow> pynum \<Rightarrow> nat \<Rightarrow> store
    \<Rightarrow> store \<times> (error + pynum list)" where
  "dG_batch pr left_endpoints mus alpha r st =
     (case intervals (st ! r) of
        Inl e \<Rightarrow> (st, Inl e)
      | Inr ivs \<Rightarrow>
          (case new_object pr (ravel ivs) (Fin 0) (Fin 1) st of
             (st', Inl e) \<Rightarrow> (st', Inl e)
           | (st', Inr w) \<Rightarrow> dG_loop pr (zip left_endpoints mus) alpha w st' []))"

section \<open>The solver \<open>_UMAU\<close>\<close>

text \<open>
  The solver works on an object of its own, threaded through the three loops. Each loop
  may run forever; it takes a number of tests of its condition it may make, and \<open>None\<close>
  says that the number did not suffice.

  \<open>load_name\<close> reads a name: the numeric names bound in the function are its arguments
  and \<open>X\<close> (the globals of the module are its imports and functions).
\<close>

definition UMAU_names :: "pynum \<Rightarrow> pynum \<Rightarrow> pynum \<Rightarrow> pynum \<Rightarrow> pynum \<Rightarrow> (string \<times> pynum) list" where
  "UMAU_names observed alpha mu_lo mu_hi tol =
     [(''observed'', observed), (''alpha'', alpha), (''mu_lo'', mu_lo), (''mu_hi'', mu_hi),
      (''tol'', tol), (''X'', observed)]"

definition load_name :: "(string \<times> pynum) list \<Rightarrow> string \<Rightarrow> error + pynum" where
  "load_name env n = (case map_of env n of None \<Rightarrow> Inl NameError | Some v \<Rightarrow> Inr v)"

text \<open>\<^verbatim>\<open>while tg.G(X, alpha) < 0: mu_lo, mu_hi = mu_lo - 2, mu_lo; tg.mu = mu_lo\<close>\<close>

fun bracket_low :: "nat \<Rightarrow> prims \<Rightarrow> truncated_gaussian \<Rightarrow> pynum \<Rightarrow> pynum \<Rightarrow> pynum \<Rightarrow> pynum
    \<Rightarrow> (error + truncated_gaussian \<times> pynum \<times> pynum) option" where
  "bracket_low 0 pr t X alpha mu_lo mu_hi = None"
| "bracket_low (Suc n) pr t X alpha mu_lo mu_hi =
     (case G pr t X alpha of
        Inl e \<Rightarrow> Some (Inl e)
      | Inr g \<Rightarrow>
          if lt g (Fin 0)
          then (case set_mu pr t (sub mu_lo (Fin 2)) of
                  Inl e \<Rightarrow> Some (Inl e)
                | Inr t' \<Rightarrow> bracket_low n pr t' X alpha (sub mu_lo (Fin 2)) mu_lo)
          else Some (Inr (t, mu_lo, mu_hi)))"

text \<open>\<^verbatim>\<open>while tg.G(X, alpha) > 0: mu_lo, mu_hi = mu_hi, mu_hi + 2; tg.mu = mu_ho\<close>\<close>

fun bracket_high :: "nat \<Rightarrow> prims \<Rightarrow> truncated_gaussian \<Rightarrow> pynum \<Rightarrow> pynum \<Rightarrow> pynum \<Rightarrow> pynum
    \<Rightarrow> pynum \<Rightarrow> (error + truncated_gaussian \<times> pynum \<times> pynum) option" where
  "bracket_high 0 pr t X alpha tol mu_lo mu_hi = None"
| "bracket_high (Suc n) pr t X alpha tol mu_lo mu_hi =
     (case G pr t X alpha of
        Inl e \<Rightarrow> Some (Inl e)
      | Inr g \<Rightarrow>
          if gt g (Fin 0)
          then (case load_name (UMAU_names X alpha mu_hi (add mu_hi (Fin 2)) tol) ''mu_ho'' of
                  Inl e \<Rightarrow> Some (Inl e)
                | Inr v \<Rightarrow>
                    (case set_mu pr t v of
                       Inl e \<Rightarrow> Some (Inl e)
                     | Inr t' \<Rightarrow> bracket_high n pr t' X alpha tol mu_hi (add mu_hi (Fin 2))))
          else Some (Inr (t, mu_lo, mu_hi)))"

text \<open>The bisection; \<open>mu_bar\<close> is unbound until the body has run once.\<close>

fun bisection :: "nat \<Rightarrow> prims \<Rightarrow> truncated_gaussian \<Rightarrow> pynum \<Rightarrow> pynum \<Rightarrow> pynum \<Rightarrow> pynum
    \<Rightarrow> pynum \<Rightarrow> pynum option \<Rightarrow> (error + pynum) option" where
  "bisection 0 pr t X alpha tol mu_lo mu_hi mu_bar = None"
| "bisection (Suc n) pr t X alpha tol mu_lo mu_hi mu_bar =
     (if gt (sub mu_hi mu_lo) tol
      then (let m = mul (Fin (1/2)) (add mu_lo mu_hi) in
            case set_mu pr t m of
              Inl e \<Rightarrow> Some (Inl e)
            | Inr t' \<Rightarrow>
                (case G pr t' X alpha of
                   Inl e \<Rightarrow> Some (Inl e)
                 | Inr g \<Rightarrow>
                     if lt g (Fin 0)
                     then bisection n pr t' X alpha tol mu_lo m (Some m)
                     else bisection n pr t' X alpha tol m mu_hi (Some m)))
      else (case mu_bar of
              None \<Rightarrow> Some (Inl UnboundLocalError)
            | Some m \<Rightarrow> Some (Inr m)))"

text \<open>The solver up to the end of the first loop, and as a whole.\<close>

definition UMAU_low :: "nat \<Rightarrow> prims \<Rightarrow> pynum \<Rightarrow> pynum \<Rightarrow> truncated_gaussian
    \<Rightarrow> pynum option \<Rightarrow> pynum option \<Rightarrow> (error + truncated_gaussian \<times> pynum \<times> pynum) option" where
  "UMAU_low fuel pr observed alpha tg mu_lo mu_hi =
     (case intervals tg of
        Inl e \<Rightarrow> Some (Inl e)
      | Inr ivs \<Rightarrow>
          (case init pr (ravel ivs) (Fin 0) (sigma tg) of
             Inl e \<Rightarrow> Some (Inl e)
           | Inr t \<Rightarrow>
               (let X = observed;
                    lo = (case mu_lo of None \<Rightarrow> X | Some v \<Rightarrow> v);
                    hi = (case mu_hi of None \<Rightarrow> add X (Fin 2) | Some v \<Rightarrow> v)
                in case set_mu pr t lo of
                     Inl e \<Rightarrow> Some (Inl e)
                   | Inr t1 \<Rightarrow> bracket_low fuel pr t1 X alpha lo hi)))"

definition UMAU :: "nat \<Rightarrow> prims \<Rightarrow> pynum \<Rightarrow> pynum \<Rightarrow> truncated_gaussian
    \<Rightarrow> pynum option \<Rightarrow> pynum option \<Rightarrow> pynum \<Rightarrow> (error + pynum) option" where
  "UMAU fuel pr observed alpha tg mu_lo mu_hi tol =
     (case UMAU_low fuel pr observed alpha tg mu_lo mu_hi of
        None \<Rightarrow> None
      | Some (Inl e) \<Rightarrow> Some (Inl e)
      | Some (Inr (t, lo, hi)) \<Rightarrow>
          (case set_mu pr t hi of
             Inl e \<Rightarrow> Some (Inl e)
           | Inr t2 \<Rightarrow>
               (case bracket_high fuel pr t2 observed alpha tol lo hi of
                  None \<Rightarrow> None
                | Some (Inl e) \<Rightarrow> Some (Inl e)
                | Some (Inr (t3, lo3, hi3)) \<Rightarrow>
                    bisection fuel pr t3 observed alpha tol lo3 hi3 None)))"

section \<open>Stand-ins for the primitives\<close>

text \<open>
  Closed instances need primitives that compute. \<open>demo_prims\<close> replaces the normal
  distribution function by the sigmoid \<open>1/2 + x / (2 (1 + |x|))\<close>, with its derivative
  and its inverse. The theorems below hold for all primitives; the stand-ins only
  instantiate them.
\<close>

definition demo_Phi :: "pynum \<Rightarrow> pynum" where
  "demo_Phi a =
     (case a of
        NInf \<Rightarrow> Fin 0
      | Fin x \<Rightarrow> Fin (1/2 + x / (2 * (1 + \<bar>x\<bar>)))
      | PInf \<Rightarrow> Fin 1
      | NaN \<Rightarrow> NaN)"

definition demo_dnorm :: "pynum \<Rightarrow> pynum" where
  "demo_dnorm a =
     (case a of
        NInf \<Rightarrow> Fin 0
      | Fin x \<Rightarrow> Fin (1 / (2 * (1 + \<bar>x\<bar>) * (1 + \<bar>x\<bar>)))
      | PInf \<Rightarrow> Fin 0
      | NaN \<Rightarrow> NaN)"

definition demo_qnorm :: "pynum \<Rightarrow> error + pynum" where
  "demo_qnorm a =
     (case a of
        Fin q \<Rightarrow>
          if q < 0 \<or> 1 < q then Inl PrimError
          else if q = 0 then Inr NInf
          else if q = 1 then Inr PInf
          else if q < 1/2 then Inr (Fin ((2 * q - 1) / (2 * q)))
          else Inr (Fin ((2 * q - 1) / (2 - 2 * q)))
      | NaN \<Rightarrow> Inr NaN
      | _ \<Rightarrow> Inl PrimError)"

definition demo_prims :: prims where
  "demo_prims =
     \<lparr>cdf = (\<lambda>a b. sub (demo_Phi b) (demo_Phi a)), dnorm = demo_dnorm, qnorm = demo_qnorm\<rparr>"

section \<open>Predicates and objects of the statements\<close>

text \<open>The indices \<open>i\<close> with \<open>a_i \<le> x < b_i\<close>.\<close>

definition spec_matching :: "(pynum \<times> pynum) list \<Rightarrow> pynum \<Rightarrow> nat set" where
  "spec_matching ivs x = {i. i < length ivs \<and> le (fst (ivs ! i)) x \<and> lt x (snd (ivs ! i))}"


text \<open>An object whose two intervals overlap, as an assignment to \<open>_cutoff_array\<close> can
  produce it.\<close>

definition overlapping_obj :: truncated_gaussian where
  "overlapping_obj = \<lparr>cutoff_array = [Fin 0, Fin 2, Fin 1, Fin 3], mu = Fin 0, sigma = Fin 1,
     P = [], D = [], negated_attr = None\<rparr>"


text \<open>The cached arrays \<open>P\<close> and \<open>D\<close> hold one entry for each interval. The constructor
  and the two setters leave every object in this state.\<close>

definition aligned :: "truncated_gaussian \<Rightarrow> bool" where
  "aligned t =
     (case intervals t of
        Inl e \<Rightarrow> False
      | Inr ivs \<Rightarrow> length (P t) = length ivs \<and> length (D t) = length ivs)"


text \<open>The untruncated distribution with the stand-in primitives, as the constructor
  builds it from \<open>(-inf, inf)\<close>.\<close>

definition line_obj :: truncated_gaussian where
  "line_obj = \<lparr>cutoff_array = [NInf, PInf], mu = Fin 0, sigma = Fin 1,
     P = [Fin 1], D = [(Fin 0, Fin 0)], negated_attr = None\<rparr>"

text \<open>The same object once \<open>mu\<close> has been set to 2.\<close>

definition line_obj2 :: truncated_gaussian where
  "line_obj2 = \<lparr>cutoff_array = [NInf, PInf], mu = Fin 2, sigma = Fin 1,
     P = [Fin 1], D = [(Fin 0, Fin 0)], negated_attr = None\<rparr>"

text \<open>
  What the batch functions are to compute at each pair, in the words of claim C9: the
  function on an object built from the intervals alone, with the pair's \<open>mu\<close> and
  \<open>sigma = 1\<close>; \<open>eval_pairs\<close> collects the values and stops at the first error.
\<close>

fun eval_pairs :: "(pynum \<times> pynum \<Rightarrow> error + pynum) \<Rightarrow> (pynum \<times> pynum) list \<Rightarrow> error + pynum list" where
  "eval_pairs f [] = Inr []"
| "eval_pairs f (p # ps) =
     (case f p of
        Inl e \<Rightarrow> Inl e
      | Inr g \<Rightarrow> (case eval_pairs f ps of Inl e \<Rightarrow> Inl e | Inr gs \<Rightarrow> Inr (g # gs)))"

definition G_sigma_one :: "prims \<Rightarrow> (pynum \<times> pynum) list \<Rightarrow> pynum \<Rightarrow> pynum \<times> pynum \<Rightarrow> error + pynum" where
  "G_sigma_one pr ivs alpha =
     (\<lambda>(left_endpoint, m).
        case init pr (ravel ivs) m (Fin 1) of
          Inl e \<Rightarrow> Inl e
        | Inr w \<Rightarrow> G pr w left_endpoint alpha)"

definition dG_sigma_one :: "prims \<Rightarrow> (pynum \<times> pynum) list \<Rightarrow> pynum \<Rightarrow> pynum \<times> pynum \<Rightarrow> error + pynum" where
  "dG_sigma_one pr ivs alpha =
     (\<lambda>(left_endpoint, m).
        case init pr (ravel ivs) m (Fin 1) of
          Inl e \<Rightarrow> Inl e
        | Inr w \<Rightarrow> dG pr w left_endpoint alpha)"

text \<open>A template with \<open>sigma = 3\<close>.\<close>

definition wide_obj :: truncated_gaussian where
  "wide_obj = \<lparr>cutoff_array = [NInf, PInf], mu = Fin 0, sigma = Fin 3,
     P = [Fin 1], D = [(Fin 0, Fin 0)], negated_attr = None\<rparr>"

text \<open>
  An interval set as the specification wants it: lower bounds ascending, every interval
  ending before the later ones begin (so no point lies in two of them), and every
  interval of strictly positive width.
\<close>

definition wf_intervals :: "(pynum \<times> pynum) list \<Rightarrow> bool" where
  "wf_intervals ivs =
     (sorted_wrt (\<lambda>i j. le (fst i) (fst j)) ivs \<and>
      sorted_wrt (\<lambda>i j. le (snd i) (fst j)) ivs \<and>
      (\<forall>i\<in>set ivs. lt (fst i) (snd i)))"

text \<open>
  Primitives that are exact for a distribution function \<open>Phi\<close>, extended to the
  infinities: \<open>_cdf\<close> is the difference of \<open>Phi\<close>, \<open>Phi\<close> is strictly increasing and
  symmetric, and \<open>_qnorm\<close> inverts it. The normal distribution function is one such
  \<open>Phi\<close>; \<open>demo_Phi_real\<close>, behind the stand-ins, is another.
\<close>

definition exact_normal :: "prims \<Rightarrow> (pynum \<Rightarrow> real) \<Rightarrow> bool" where
  "exact_normal pr Phi =
     (Phi NInf = 0 \<and> Phi PInf = 1 \<and>
      (\<forall>a b. a \<noteq> NaN \<and> b \<noteq> NaN \<longrightarrow> cdf pr a b = Fin (Phi b - Phi a)) \<and>
      (\<forall>a b. lt a b \<longrightarrow> Phi a < Phi b) \<and>
      (\<forall>y. qnorm pr (Fin (Phi (Fin y))) = Inr (Fin y)) \<and>
      (\<forall>y. Phi (Fin (- y)) = 1 - Phi (Fin y)))"

definition demo_Phi_real :: "pynum \<Rightarrow> real" where
  "demo_Phi_real a = (case demo_Phi a of Fin r \<Rightarrow> r | _ \<Rightarrow> 0)"

section \<open>Finding the interval of a point\<close>

lemma set_nonzero: "set (nonzero bs) = {i. i < length bs \<and> bs ! i}"
  by (auto simp: nonzero_def)

lemma distinct_nonzero: "distinct (nonzero bs)"
  by (simp add: nonzero_def)

lemma length_nonzero: "length (nonzero bs) = card {i. i < length bs \<and> bs ! i}"
  using distinct_card[OF distinct_nonzero, of bs] by (simp add: set_nonzero)

lemma nonzero_matching:
  "set (nonzero (map (\<lambda>(a, b). ge x a \<and> lt x b) ivs)) = spec_matching ivs x"
  by (auto simp: set_nonzero spec_matching_def ge_def split: prod.splits)

lemma length_nonzero_matching:
  "length (nonzero (map (\<lambda>(a, b). ge x a \<and> lt x b) ivs)) = card (spec_matching ivs x)"
  using distinct_card[OF distinct_nonzero, of "map (\<lambda>(a, b). ge x a \<and> lt x b) ivs"]
  by (simp add: nonzero_matching)

lemma finite_spec_matching: "finite (spec_matching ivs x)"
  by (simp add: spec_matching_def)

lemma find_interval_unique:
  assumes "intervals t = Inr ivs" "spec_matching ivs x = {i}"
  shows "find_interval t x = Inr i"
proof -
  let ?k = "nonzero (map (\<lambda>(a, b). ge x a \<and> lt x b) ivs)"
  have len: "length ?k = 1" using assms(2) by (simp add: length_nonzero_matching)
  then obtain j where k: "?k = [j]" by (cases ?k) auto
  have "set ?k = {i}" using assms(2) by (simp add: nonzero_matching)
  with k have "j = i" by simp
  with k assms(1) show ?thesis by (simp add: find_interval_def)
qed

lemma find_interval_none:
  assumes "intervals t = Inr ivs" "spec_matching ivs x = {}"
  shows "find_interval t x = Inl NotInSupport"
  using assms by (simp add: find_interval_def length_nonzero_matching Let_def)

lemma find_interval_many:
  assumes "intervals t = Inr ivs" "1 < card (spec_matching ivs x)"
  shows "find_interval t x = Inl NotDisjoint"
  using assms by (simp add: find_interval_def length_nonzero_matching Let_def)

lemma np_sort_scn: "np_sort [NInf, Fin (- 1), Fin 1, PInf] = [NInf, Fin (- 1), Fin 1, PInf]"
  by (simp add: np_sort_def)

lemma init_scn:
  "init pr [NInf, Fin (- 1), Fin 1, PInf] (Fin 0) (Fin 1) = Inr t0 \<Longrightarrow> intervals t0 = Inr [(NInf, Fin (- 1)), (Fin 1, PInf)]"
  by (auto simp: init_def np_sort_scn reshape2_def ne_def sub_def mu_or_sigma_changed_def intervals_def)

lemma init_scn_ex:
  "\<exists>t0. init pr [NInf, Fin (- 1), Fin 1, PInf] (Fin 0) (Fin 1) = Inr t0"
  by (simp add: init_def np_sort_scn reshape2_def ne_def sub_def mu_or_sigma_changed_def intervals_def)

lemma find_interval_scn:
  "intervals t0 = Inr [(NInf, Fin (- 1)), (Fin 1, PInf)] \<Longrightarrow> find_interval t0 (Fin 0) = Inl NotInSupport"
  by (simp add: find_interval_def nonzero_def ge_def le_def lt_def)

lemma spec_matching_filter:
  "spec_matching ivs x =
     set (filter (\<lambda>i. le (fst (ivs ! i)) x \<and> lt x (snd (ivs ! i))) [0..<length ivs])"
  by (auto simp: spec_matching_def)

lemma sm1: "spec_matching [(Fin 0, Fin 2), (Fin 1, Fin 3)] (Fin (1/2)) = {0}"
  by (simp add: spec_matching_filter le_def lt_def)
lemma sm2: "spec_matching [(Fin 0, Fin 2), (Fin 1, Fin 3)] (Fin 5) = {}"
  by (simp add: spec_matching_filter le_def lt_def)
lemma sm3: "spec_matching [(Fin 0, Fin 2), (Fin 1, Fin 3)] (Fin (3/2)) = {0, 1}"
  by (simp add: spec_matching_filter le_def lt_def)

text \<open>
  Claim C5. \<open>find_interval\<close> returns the index \<open>i\<close> when \<open>i\<close> is the only index with
  \<open>a_i \<le> x < b_i\<close>, raises the error \<open>x is not in the support\<close> when there is no such
  index, and the error \<open>intervals are not disjoint\<close> when there are several. On the
  intervals \<open>(-inf,-1), (1,inf)\<close> the point 0 is not in the support.
\<close>

theorem find_interval_spec:
  "(intervals t = Inr ivs \<longrightarrow>
      (\<forall>i. spec_matching ivs x = {i} \<longrightarrow> find_interval t x = Inr i) \<and>
      (spec_matching ivs x = {} \<longrightarrow> find_interval t x = Inl NotInSupport) \<and>
      (1 < card (spec_matching ivs x) \<longrightarrow> find_interval t x = Inl NotDisjoint)) \<and>
   (\<exists>t0. init pr [NInf, Fin (- 1), Fin 1, PInf] (Fin 0) (Fin 1) = Inr t0 \<and>
         find_interval t0 (Fin 0) = Inl NotInSupport)"
proof (intro conjI impI allI)
  obtain t0 where t0: "init pr [NInf, Fin (- 1), Fin 1, PInf] (Fin 0) (Fin 1) = Inr t0"
    using init_scn_ex by blast
  from find_interval_scn[OF init_scn[OF t0]] t0
  show "\<exists>t0. init pr [NInf, Fin (- 1), Fin 1, PInf] (Fin 0) (Fin 1) = Inr t0 \<and>
         find_interval t0 (Fin 0) = Inl NotInSupport" by blast
qed (auto intro: find_interval_unique find_interval_none find_interval_many)

theorem find_interval_spec_witness:
  "intervals overlapping_obj = Inr [(Fin 0, Fin 2), (Fin 1, Fin 3)] \<and>
   spec_matching [(Fin 0, Fin 2), (Fin 1, Fin 3)] (Fin (1/2)) = {0} \<and>
   find_interval overlapping_obj (Fin (1/2)) = Inr 0 \<and>
   spec_matching [(Fin 0, Fin 2), (Fin 1, Fin 3)] (Fin 5) = {} \<and>
   find_interval overlapping_obj (Fin 5) = Inl NotInSupport \<and>
   1 < card (spec_matching [(Fin 0, Fin 2), (Fin 1, Fin 3)] (Fin (3/2))) \<and>
   find_interval overlapping_obj (Fin (3/2)) = Inl NotDisjoint"
proof -
  have iv: "intervals overlapping_obj = Inr [(Fin 0, Fin 2), (Fin 1, Fin 3)]"
    by (simp add: intervals_def reshape2_def overlapping_obj_def)
  have c: "1 < card (spec_matching [(Fin 0, Fin 2), (Fin 1, Fin 3)] (Fin (3/2)))"
    by (simp add: sm3)
  show ?thesis
    using iv sm1 sm2 c
      find_interval_spec[of overlapping_obj "[(Fin 0, Fin 2), (Fin 1, Fin 3)]" "Fin (1/2)" demo_prims]
      find_interval_spec[of overlapping_obj "[(Fin 0, Fin 2), (Fin 1, Fin 3)]" "Fin 5" demo_prims]
      find_interval_spec[of overlapping_obj "[(Fin 0, Fin 2), (Fin 1, Fin 3)]" "Fin (3/2)" demo_prims]
    by simp
qed

section \<open>Basic facts\<close>

lemma add_zero_left [simp]: "add (Fin 0) c = c"
  by (cases c) simp_all

lemma np_sum_Nil [simp]: "np_sum [] = Fin 0"
  by (simp add: np_sum_def)

lemma np_sum_single [simp]: "np_sum [c] = c"
  by (simp add: np_sum_def)

lemma length_pairs_ravel [simp]: "pairs (ravel ivs) = ivs"
  by (induction ivs rule: ravel.induct) simp_all

lemma even_length_ravel [simp]: "even (length (ravel ivs))"
  by (induction ivs rule: ravel.induct) simp_all

lemma reshape2_ravel [simp]: "reshape2 (ravel ivs) = Inr ivs"
  by (simp add: reshape2_def)

lemma intervals_mu_or_sigma_changed:
  "mu_or_sigma_changed pr t = Inr t' \<Longrightarrow> intervals t' = intervals t"
  by (auto simp: mu_or_sigma_changed_def intervals_def split: sum.splits)

lemma aligned_mu_or_sigma_changed:
  "mu_or_sigma_changed pr t = Inr t' \<Longrightarrow> aligned t'"
  by (auto simp: mu_or_sigma_changed_def intervals_def aligned_def split: sum.splits)

lemma aligned_init: "init pr flat m s = Inr t \<Longrightarrow> aligned t"
  by (auto simp: init_def aligned_mu_or_sigma_changed split: sum.splits)

lemma aligned_set_mu: "set_mu pr t v = Inr t' \<Longrightarrow> aligned t'"
  by (simp add: set_mu_def aligned_mu_or_sigma_changed)

lemma aligned_set_sigma: "set_sigma pr t v = Inr t' \<Longrightarrow> aligned t'"
  by (simp add: set_sigma_def aligned_mu_or_sigma_changed)


section \<open>Overlapping input\<close>

lemma np_sort_overlap:
  "np_sort [Fin (- 1), Fin 1, Fin 0, Fin 2] = [Fin (- 1), Fin 0, Fin 1, Fin 2]"
  by (simp add: np_sort_def)

lemma init_overlap:
  "\<exists>t. init pr (ravel [(Fin (- 1), Fin 1), (Fin 0, Fin 2)]) m s = Inr t \<and>
       intervals t = Inr [(Fin (- 1), Fin 0), (Fin 1, Fin 2)]"
  by (simp add: init_def np_sort_overlap reshape2_def ne_def sub_def mu_or_sigma_changed_def
      intervals_def)

lemma find_interval_overlap:
  assumes "intervals t = Inr [(Fin (- 1), Fin 0), (Fin 1, Fin 2)]" "ge x (Fin 0)" "lt x (Fin 1)"
  shows "find_interval t x = Inl NotInSupport"
proof -
  from assms(2,3) obtain v where "x = Fin v" "0 \<le> v" "v < 1"
    by (cases x) (auto simp: ge_def le_def lt_def)
  with assms(1) show ?thesis
    by (simp add: find_interval_def nonzero_def ge_def le_def lt_def)
qed

text \<open>
  The claim C4 as stated fails: the constructor accepts the overlapping intervals
  \<open>(-1,1), (0,2)\<close>, and the query at the point 1/2 of the overlap does not raise the
  error \<open>intervals are not disjoint\<close>.
\<close>

theorem overlap_counterexample:
  "\<not> (isl (init demo_prims (ravel [(Fin (- 1), Fin 1), (Fin 0, Fin 2)]) (Fin 0) (Fin 1)) \<or>
      find_interval (projr (init demo_prims (ravel [(Fin (- 1), Fin 1), (Fin 0, Fin 2)]) (Fin 0) (Fin 1)))
        (Fin (1/2)) = Inl NotDisjoint)"
proof -
  obtain t where t: "init demo_prims (ravel [(Fin (- 1), Fin 1), (Fin 0, Fin 2)]) (Fin 0) (Fin 1) = Inr t"
    and iv: "intervals t = Inr [(Fin (- 1), Fin 0), (Fin 1, Fin 2)]"
    using init_overlap by blast
  have "find_interval t (Fin (1/2)) = Inl NotInSupport"
    by (rule find_interval_overlap[OF iv]) (simp_all add: ge_def le_def lt_def)
  with t show ?thesis by simp
qed

text \<open>
  Claim C4, amended. Constructing with the overlapping intervals \<open>(-1,1), (0,2)\<close> raises
  no error, whatever the primitives and parameters: the four endpoints are sorted and
  paired again, which gives the intervals \<open>(-1,0), (1,2)\<close>, and a query at any point of
  the overlap \<open>[0,1)\<close> raises the error \<open>x is not in the support\<close>.
\<close>

theorem overlap_resorted:
  "\<exists>t. init pr (ravel [(Fin (- 1), Fin 1), (Fin 0, Fin 2)]) m s = Inr t \<and>
       intervals t = Inr [(Fin (- 1), Fin 0), (Fin 1, Fin 2)] \<and>
       (\<forall>x. ge x (Fin 0) \<and> lt x (Fin 1) \<longrightarrow> find_interval t x = Inl NotInSupport)"
  using init_overlap[of pr m s] find_interval_overlap by blast

theorem overlap_resorted_witness:
  "ge (Fin (1/2)) (Fin 0) \<and> lt (Fin (1/2)) (Fin 1) \<and>
   intervals (projr (init demo_prims (ravel [(Fin (- 1), Fin 1), (Fin 0, Fin 2)]) (Fin 0) (Fin 1)))
     = Inr [(Fin (- 1), Fin 0), (Fin 1, Fin 2)] \<and>
   find_interval (projr (init demo_prims (ravel [(Fin (- 1), Fin 1), (Fin 0, Fin 2)]) (Fin 0) (Fin 1)))
     (Fin (1/2)) = Inl NotInSupport"
proof -
  have h: "ge (Fin (1/2)) (Fin 0) \<and> lt (Fin (1/2)) (Fin 1)"
    by (simp add: ge_def le_def lt_def)
  from overlap_resorted[of demo_prims "Fin 0" "Fin 1"] h show ?thesis
    by auto
qed


section \<open>The sentinel of \<open>right_endpoint\<close>\<close>

lemma gt_NaN [simp]: "gt NaN x = False" "gt x NaN = False"
  by (simp_all add: gt_def lt_def)

lemma py_min_NaN [simp]: "py_min NaN b = NaN"
  by (simp add: py_min_def lt_def)

lemma right_endpoint_sentinel:
  "CDF pr t le0 = Inr a1 \<Longrightarrow> gt a1 alpha \<Longrightarrow> right_endpoint pr t le0 alpha = Inr NaN"
  by (simp add: right_endpoint_def)

lemma find_interval_Inr_nonempty:
  "find_interval t x = Inr k \<Longrightarrow> intervals t = Inr ivs \<Longrightarrow> ivs \<noteq> []"
  by (auto simp: find_interval_def nonzero_def Let_def split: if_splits)

lemma CDF_Inr_nonempty:
  "CDF pr t x = Inr a \<Longrightarrow> intervals t = Inr ivs \<Longrightarrow> ivs \<noteq> []"
  by (auto simp: CDF_def split: sum.splits dest: find_interval_Inr_nonempty)

lemma CDF_Inr_intervals:
  "CDF pr t x = Inr a \<Longrightarrow> \<exists>ivs. intervals t = Inr ivs"
  by (auto simp: CDF_def split: sum.splits if_splits)

lemma right_endpoint_Inr_CDF:
  "right_endpoint pr t le0 alpha = Inr re \<Longrightarrow> \<exists>a. CDF pr t le0 = Inr a"
  by (auto simp: right_endpoint_def split: sum.splits)

lemma aligned_D_nonempty:
  "aligned t \<Longrightarrow> intervals t = Inr ivs \<Longrightarrow> ivs \<noteq> [] \<Longrightarrow> D t \<noteq> []"
  by (auto simp: aligned_def)

lemma G_no_intersection:
  assumes "D t \<noteq> []" "right_endpoint pr t le0 alpha = Inr re" "intervals t = Inr ivs"
    "\<forall>i\<in>set ivs. \<not> gt (py_min re (snd i)) (py_max le0 (fst i))"
  shows "G pr t le0 alpha = Inr (Fin 0)"
proof -
  have "filter (\<lambda>i. gt (snd i) (fst i)) (map (\<lambda>(a, b). (py_max le0 a, py_min re b)) ivs) = []"
    using assms(4) by (auto simp: filter_empty_conv split: prod.splits)
  with assms(1-3) show ?thesis by (simp add: G_def Let_def)
qed

text \<open>
  Claim C3. \<open>right_endpoint\<close> returns NaN, not a number, whenever \<open>CDF(left_endpoint)\<close>
  exceeds \<open>alpha\<close>; \<open>G\<close> then finds no intersection and returns exactly 0, as it does
  whenever no intersection of \<open>[left_endpoint, right_endpoint]\<close> with an interval of the
  support is non-empty.
\<close>

theorem right_endpoint_sentinel_G_zero:
  assumes "aligned t"
  shows "(CDF pr t le0 = Inr a1 \<and> gt a1 alpha \<longrightarrow>
            right_endpoint pr t le0 alpha = Inr NaN \<and> G pr t le0 alpha = Inr (Fin 0)) \<and>
         (right_endpoint pr t le0 alpha = Inr re \<and> intervals t = Inr ivs \<and>
            (\<forall>i\<in>set ivs. \<not> gt (py_min re (snd i)) (py_max le0 (fst i))) \<longrightarrow>
            G pr t le0 alpha = Inr (Fin 0))"
proof (intro conjI impI)
  assume h: "CDF pr t le0 = Inr a1 \<and> gt a1 alpha"
  then show re: "right_endpoint pr t le0 alpha = Inr NaN" by (simp add: right_endpoint_sentinel)
  from h obtain ivs' where iv: "intervals t = Inr ivs'" using CDF_Inr_intervals by blast
  with h have "ivs' \<noteq> []" using CDF_Inr_nonempty by blast
  with assms iv have "D t \<noteq> []" by (rule aligned_D_nonempty)
  then show "G pr t le0 alpha = Inr (Fin 0)"
    using re iv by (rule G_no_intersection) simp
next
  assume h: "right_endpoint pr t le0 alpha = Inr re \<and> intervals t = Inr ivs \<and>
            (\<forall>i\<in>set ivs. \<not> gt (py_min re (snd i)) (py_max le0 (fst i)))"
  then obtain a where "CDF pr t le0 = Inr a" using right_endpoint_Inr_CDF by blast
  with h have "ivs \<noteq> []" using CDF_Inr_nonempty by blast
  with assms h have "D t \<noteq> []" using aligned_D_nonempty by blast
  with h show "G pr t le0 alpha = Inr (Fin 0)" using G_no_intersection by blast
qed


lemma init_line: "init demo_prims [NInf, PInf] (Fin 0) (Fin 1) = Inr line_obj"
  by (simp add: init_def np_sort_def reshape2_def ne_def sub_def mu_or_sigma_changed_def
      intervals_def standardize_def line_obj_def demo_prims_def demo_Phi_def demo_dnorm_def)

lemma intervals_line: "intervals line_obj = Inr [(NInf, PInf)]"
  by (simp add: intervals_def reshape2_def line_obj_def)

lemma find_interval_line: "find_interval line_obj (Fin 0) = Inr 0"
  by (simp add: find_interval_def intervals_line nonzero_def ge_def le_def lt_def)

lemma CDF_line: "CDF demo_prims line_obj (Fin 0) = Inr (Fin (1/2))"
  by (simp add: CDF_def find_interval_line intervals_line)
     (simp add: line_obj_def demo_prims_def demo_Phi_def sub_def)

theorem right_endpoint_sentinel_G_zero_witness:
  "aligned line_obj \<and> CDF demo_prims line_obj (Fin 0) = Inr (Fin (1/2)) \<and>
   gt (Fin (1/2)) (Fin (1/6)) \<and>
   right_endpoint demo_prims line_obj (Fin 0) (Fin (1/6)) = Inr NaN \<and>
   intervals line_obj = Inr [(NInf, PInf)] \<and>
   \<not> gt (py_min NaN PInf) (py_max (Fin 0) NInf) \<and>
   G demo_prims line_obj (Fin 0) (Fin (1/6)) = Inr (Fin 0)"
proof -
  have a: "aligned line_obj" using aligned_init[OF init_line] .
  have g: "gt (Fin (1/2)) (Fin (1/6))" by (simp add: gt_def lt_def)
  have n: "\<forall>i\<in>set [(NInf, PInf)]. \<not> gt (py_min NaN (snd i)) (py_max (Fin 0) (fst i))" by simp
  from right_endpoint_sentinel_G_zero[OF a, of demo_prims "Fin 0" "Fin (1/2)" "Fin (1/6)" NaN "[(NInf, PInf)]"]
    a g n CDF_line intervals_line
  show ?thesis by simp
qed

section \<open>The distribution function and \<open>sigma\<close>\<close>

lemma np_sum_two: "np_sum [a, b] = add a b"
  by (simp add: np_sum_def)

text \<open>Scenario 1 of the specification, where \<open>sigma\<close> is 1, holds for all primitives.\<close>

lemma CDF_scenario_1:
  "\<exists>t. init pr [NInf, Fin (- 1), Fin 1, PInf] (Fin 0) (Fin 1) = Inr t \<and>
       CDF pr t (Fin 2) =
         Inr (divide_num (add (cdf pr NInf (Fin (- 1))) (cdf pr (Fin 1) (Fin 2)))
                         (add (cdf pr NInf (Fin (- 1))) (cdf pr (Fin 1) PInf)))"
  by (simp add: init_def np_sort_def reshape2_def ne_def sub_def mu_or_sigma_changed_def
      intervals_def standardize_def CDF_def find_interval_def nonzero_def ge_def le_def lt_def
      np_sum_two)

text \<open>
  Claim C2 at a distribution with \<open>sigma = 2\<close>: the interval \<open>(0,1)\<close>, \<open>mu = 0\<close>, and the
  point 1/2. The mass of the interval is \<open>P[0] = _cdf(0, 1/2)\<close>, the endpoints divided by
  \<open>sigma\<close>. The partial mass up to the point is taken as \<open>_cdf(0 - mu, 1/2 - mu)\<close>, not
  divided by \<open>sigma\<close>, so \<open>CDF\<close> returns \<open>P[0] / P[0]\<close> in the middle of the interval,
  where the claim has \<open>_cdf(0, 1/4) / P[0]\<close>.
\<close>

theorem CDF_partial_mass_without_sigma:
  "\<exists>t. init pr [Fin 0, Fin 1] (Fin 0) (Fin 2) = Inr t \<and>
       P t = [cdf pr (Fin 0) (Fin (1/2))] \<and>
       CDF pr t (Fin (1/2)) =
         Inr (divide_num (cdf pr (Fin 0) (Fin (1/2))) (cdf pr (Fin 0) (Fin (1/2))))"
  by (simp add: init_def np_sort_def reshape2_def ne_def sub_def mu_or_sigma_changed_def
      intervals_def standardize_def CDF_def find_interval_def nonzero_def ge_def le_def lt_def)

text \<open>
  Claim C8 at a distribution with \<open>sigma = 10\<close>: the interval \<open>(0,1)\<close>, \<open>mu = 0\<close>, and the
  point 9/10 inside it. For primitives with \<open>0 < _cdf(0, 1/10) < _cdf(0, 9/10)\<close>, as the
  normal distribution has them, \<open>CDF(9/10)\<close> is the quotient of the two, above 1, and
  \<open>quantile\<close> of it raises IndexError: it looks for an interval after the last one.
\<close>

theorem roundtrip_IndexError:
  assumes "cdf pr (Fin 0) (Fin (1/10)) = Fin p" "cdf pr (Fin 0) (Fin (9/10)) = Fin c"
    "0 < p" "p < c"
  shows "\<exists>t. init pr [Fin 0, Fin 1] (Fin 0) (Fin 10) = Inr t \<and>
       CDF pr t (Fin (9/10)) = Inr (Fin (c / p)) \<and>
       quantile pr t (Fin (c / p)) = Inl IndexError"
  using assms
  by (simp add: init_def np_sort_def reshape2_def ne_def sub_def mu_or_sigma_changed_def
      intervals_def standardize_def CDF_def find_interval_def nonzero_def ge_def le_def lt_def
      quantile_def cumsum_def Let_def)

theorem roundtrip_IndexError_witness:
  "cdf demo_prims (Fin 0) (Fin (1/10)) = Fin (1/22) \<and>
   cdf demo_prims (Fin 0) (Fin (9/10)) = Fin (9/38) \<and> (0::real) < 1/22 \<and> (1/22::real) < 9/38 \<and>
   CDF demo_prims (projr (init demo_prims [Fin 0, Fin 1] (Fin 0) (Fin 10))) (Fin (9/10))
     = Inr (Fin ((9/38) / (1/22))) \<and>
   quantile demo_prims (projr (init demo_prims [Fin 0, Fin 1] (Fin 0) (Fin 10))) (Fin ((9/38) / (1/22)))
     = Inl IndexError"
proof -
  have p: "cdf demo_prims (Fin 0) (Fin (1/10)) = Fin (1/22)"
    by (simp add: demo_prims_def demo_Phi_def sub_def)
  have c: "cdf demo_prims (Fin 0) (Fin (9/10)) = Fin (9/38)"
    by (simp add: demo_prims_def demo_Phi_def sub_def)
  have h: "(0::real) < 1/22" "(1/22::real) < 9/38" by simp_all
  from roundtrip_IndexError[OF p c h] p c h show ?thesis by auto
qed

section \<open>The second loop of the solver\<close>

lemma nonzero_Nil [simp]: "nonzero [] = []"
  by (simp add: nonzero_def)

lemma nonzero_Cons [simp]:
  "nonzero (b # bs) = (if b then [0] else []) @ map Suc (nonzero bs)"
proof -
  have "[0..<Suc (length bs)] = 0 # map Suc [0..<length bs]"
    by (simp only: map_Suc_upt upt_conv_Cons[OF zero_less_Suc])
  then show ?thesis by (simp add: nonzero_def filter_map comp_def)
qed

lemma bracket_low_fuel: "bracket_low fuel pr t X alpha lo hi = Some r \<Longrightarrow> 0 < fuel"
  by (cases fuel) simp_all

lemma UMAU_low_fuel:
  "UMAU_low fuel pr observed alpha tg mu_lo mu_hi = Some (Inr r) \<Longrightarrow> 0 < fuel"
  by (auto simp: UMAU_low_def Let_def split: sum.splits dest: bracket_low_fuel)

lemma load_mu_ho: "load_name (UMAU_names X alpha lo hi tol) ''mu_ho'' = Inl NameError"
  by (simp add: load_name_def UMAU_names_def)

lemma bracket_high_NameError:
  "G pr t X alpha = Inr g \<Longrightarrow> gt g (Fin 0) \<Longrightarrow>
   bracket_high (Suc n) pr t X alpha tol lo hi = Some (Inl NameError)"
  by (simp add: load_mu_ho)

text \<open>
  Claim C1 on the code. Whenever the solver reaches the second loop and its condition
  \<open>G(observed, alpha) > 0\<close> holds there, the body runs once, up to
  \<^verbatim>\<open>tg.mu = mu_ho\<close>: the name \<open>mu_ho\<close> is bound nowhere, so the solver ends with a
  NameError. The bracket is not shifted until \<open>G \<le> 0\<close> and the bisection is not reached.
\<close>

theorem UMAU_bracket_high_NameError:
  assumes "UMAU_low fuel pr observed alpha tg mu_lo mu_hi = Some (Inr (t, lo, hi))"
    and "set_mu pr t hi = Inr t2"
    and "G pr t2 observed alpha = Inr g"
    and "gt g (Fin 0)"
  shows "UMAU fuel pr observed alpha tg mu_lo mu_hi tol = Some (Inl NameError)"
proof -
  from assms(1) have "0 < fuel" by (rule UMAU_low_fuel)
  then obtain n where n: "fuel = Suc n" by (cases fuel) simp_all
  have "bracket_high fuel pr t2 observed alpha tol lo hi = Some (Inl NameError)"
    unfolding n using assms(3,4) by (rule bracket_high_NameError)
  with assms(1,2) show ?thesis by (simp add: UMAU_def)
qed

lemma set_mu_line0: "set_mu demo_prims line_obj (Fin 0) = Inr line_obj"
  by (simp add: set_mu_def mu_or_sigma_changed_def intervals_def reshape2_def standardize_def
      sub_def line_obj_def demo_prims_def demo_Phi_def demo_dnorm_def)

lemma set_mu_line2: "set_mu demo_prims line_obj (Fin 2) = Inr line_obj2"
  by (simp add: set_mu_def mu_or_sigma_changed_def intervals_def reshape2_def standardize_def
      sub_def line_obj_def line_obj2_def demo_prims_def demo_Phi_def demo_dnorm_def)

lemma intervals_line2: "intervals line_obj2 = Inr [(NInf, PInf)]"
  by (simp add: intervals_def reshape2_def line_obj2_def)

lemma find_interval_line2: "find_interval line_obj2 (Fin 0) = Inr 0"
  by (simp add: find_interval_def intervals_line2 nonzero_def ge_def le_def lt_def)

lemma CDF_line2: "CDF demo_prims line_obj2 (Fin 0) = Inr (Fin (1/6))"
  by (simp add: CDF_def find_interval_line2 intervals_line2)
     (simp add: line_obj2_def demo_prims_def demo_Phi_def sub_def)

lemma quantile_line2: "quantile demo_prims line_obj2 (Fin 1) = Inr PInf"
proof -
  have p: "P line_obj2 = [Fin 1]" "mu line_obj2 = Fin 2" by (simp_all add: line_obj2_def)
  show ?thesis
    by (simp add: quantile_def intervals_line2 p Let_def cumsum_def lt_def np_mean2_def
        np_sum_def demo_prims_def demo_Phi_def demo_qnorm_def sub_def)
qed

lemma right_endpoint_line2: "right_endpoint demo_prims line_obj2 (Fin 0) (Fin (1/6)) = Inr PInf"
  by (simp add: right_endpoint_def CDF_line2 gt_def lt_def sub_def quantile_line2)

lemma init_half_line:
  "init demo_prims [Fin 0, PInf] (Fin 2) (Fin 1) =
     Inr \<lparr>cutoff_array = [Fin 0, PInf], mu = Fin 2, sigma = Fin 1,
          P = [Fin (5/6)], D = [(Fin (1/18), Fin 0)], negated_attr = None\<rparr>"
  by (simp add: init_def np_sort_def reshape2_def ne_def sub_def mu_or_sigma_changed_def
      intervals_def standardize_def demo_prims_def demo_Phi_def demo_dnorm_def)

lemma G_line2: "G demo_prims line_obj2 (Fin 0) (Fin (1/6)) = Inr (Fin (1/18))"
  apply (simp add: G_def right_endpoint_line2 intervals_line2 Let_def py_max_def py_min_def
      gt_def lt_def)
  apply (simp add: line_obj2_def init_half_line delta_def np_sum_def sub_def)
  done

lemma G_line0: "G demo_prims line_obj (Fin 0) (Fin (1/6)) = Inr (Fin 0)"
proof -
  have d: "D line_obj \<noteq> []" by (simp add: line_obj_def)
  have r: "right_endpoint demo_prims line_obj (Fin 0) (Fin (1/6)) = Inr NaN"
    using CDF_line by (rule right_endpoint_sentinel) (simp add: gt_def lt_def)
  show ?thesis using d r intervals_line by (rule G_no_intersection) simp
qed

lemma UMAU_low_line:
  "UMAU_low 1 demo_prims (Fin 0) (Fin (1/6)) line_obj None None = Some (Inr (line_obj, Fin 0, Fin 2))"
proof -
  have s: "sigma line_obj = Fin 1" by (simp add: line_obj_def)
  show ?thesis
    by (simp add: UMAU_low_def intervals_line s init_line set_mu_line0 G_line0 Let_def lt_def)
qed

theorem UMAU_bracket_high_NameError_witness:
  "UMAU_low 1 demo_prims (Fin 0) (Fin (1/6)) line_obj None None = Some (Inr (line_obj, Fin 0, Fin 2)) \<and>
   set_mu demo_prims line_obj (Fin 2) = Inr line_obj2 \<and>
   G demo_prims line_obj2 (Fin 0) (Fin (1/6)) = Inr (Fin (1/18)) \<and>
   gt (Fin (1/18)) (Fin 0) \<and>
   UMAU 1 demo_prims (Fin 0) (Fin (1/6)) line_obj None None (Fin (1/100000000)) = Some (Inl NameError)"
proof -
  have g: "gt (Fin (1/18)) (Fin 0)" by (simp add: gt_def lt_def)
  from UMAU_bracket_high_NameError[OF UMAU_low_line set_mu_line2 G_line2 g]
    UMAU_low_line set_mu_line2 G_line2 g
  show ?thesis by simp
qed

section \<open>The batch functions and the template\<close>

lemma set_mu_at_length [simp]: "length (fst (set_mu_at pr w m st)) = length st"
  by (simp add: set_mu_at_def split: sum.splits)

lemma set_mu_at_other: "i \<noteq> w \<Longrightarrow> fst (set_mu_at pr w m st) ! i = st ! i"
  by (simp add: set_mu_at_def split: sum.splits)

lemma set_sigma_at_length [simp]: "length (fst (set_sigma_at pr w m st)) = length st"
  by (simp add: set_sigma_at_def split: sum.splits)

lemma set_sigma_at_other: "i \<noteq> w \<Longrightarrow> fst (set_sigma_at pr w m st) ! i = st ! i"
  by (simp add: set_sigma_at_def split: sum.splits)

lemma G_loop_other:
  "i \<noteq> w \<Longrightarrow> fst (G_loop pr ps alpha w st res) ! i = st ! i"
proof (induction ps arbitrary: st res)
  case Nil
  then show ?case by simp
next
  case (Cons p ps)
  obtain l m where p: "p = (l, m)" by (cases p)
  obtain st' r where s: "set_mu_at pr w m st = (st', r)" by (cases "set_mu_at pr w m st")
  have o: "st' ! i = st ! i" using set_mu_at_other[OF Cons.prems, of pr m st] s by simp
  show ?case
    using Cons.IH[OF Cons.prems, of st'] o
    by (simp add: p s split: sum.splits)
qed

lemma dG_loop_other:
  "i \<noteq> w \<Longrightarrow> fst (dG_loop pr ps alpha w st res) ! i = st ! i"
proof (induction ps arbitrary: st res)
  case Nil
  then show ?case by simp
next
  case (Cons p ps)
  obtain l m where p: "p = (l, m)" by (cases p)
  obtain st' r where s: "set_mu_at pr w m st = (st', r)" by (cases "set_mu_at pr w m st")
  have o: "st' ! i = st ! i" using set_mu_at_other[OF Cons.prems, of pr m st] s by simp
  show ?case
    using Cons.IH[OF Cons.prems, of st'] o
    by (simp add: p s split: sum.splits)
qed

lemma G_batch_frame:
  "i < length st \<Longrightarrow> fst (G_batch pr les mus alpha r st) ! i = st ! i"
  by (auto simp: G_batch_def new_object_def G_loop_other nth_append split: sum.splits)

lemma dG_batch_frame:
  "i < length st \<Longrightarrow> fst (dG_batch pr les mus alpha r st) ! i = st ! i"
  by (auto simp: dG_batch_def new_object_def dG_loop_other nth_append split: sum.splits)

text \<open>
  Claim C7. The batch functions \<open>G\<close> and \<open>dG\<close> leave the template as it was, with its
  \<open>mu\<close>, its \<open>sigma\<close> and its intervals, and every other object that existed before the
  call: the evaluations set \<open>mu\<close> on a new object only.
\<close>

theorem batch_leaves_template:
  assumes "r < length st"
  shows "fst (G_batch pr left_endpoints mus alpha r st) ! r = st ! r \<and>
         fst (dG_batch pr left_endpoints mus alpha r st) ! r = st ! r \<and>
         (\<forall>i<length st. fst (G_batch pr left_endpoints mus alpha r st) ! i = st ! i \<and>
                         fst (dG_batch pr left_endpoints mus alpha r st) ! i = st ! i)"
  using assms by (simp add: G_batch_frame dG_batch_frame)

theorem batch_leaves_template_witness:
  "0 < length [wide_obj] \<and>
   fst (G_batch demo_prims [Fin 0] [Fin 2] (Fin (1/6)) 0 [wide_obj]) ! 0 = wide_obj \<and>
   fst (dG_batch demo_prims [Fin 0] [Fin 2] (Fin (1/6)) 0 [wide_obj]) ! 0 = wide_obj \<and>
   mu (fst (G_batch demo_prims [Fin 0] [Fin 2] (Fin (1/6)) 0 [wide_obj]) ! 0) = Fin 0 \<and>
   sigma (fst (G_batch demo_prims [Fin 0] [Fin 2] (Fin (1/6)) 0 [wide_obj]) ! 0) = Fin 3"
proof -
  have l: "0 < length [wide_obj]" by simp
  have m: "mu wide_obj = Fin 0" "sigma wide_obj = Fin 3" by (simp_all add: wide_obj_def)
  from batch_leaves_template[OF l, of demo_prims "[Fin 0]" "[Fin 2]" "Fin (1/6)"] m
  show ?thesis by simp
qed


section \<open>The batch functions and \<open>sigma\<close>\<close>

lemma init_Inr_reshape:
  "init pr F m s = Inr w \<Longrightarrow> \<exists>ivs. reshape2 (np_sort F) = Inr ivs"
  by (cases "reshape2 (np_sort F)") (simp_all add: init_def)

lemma set_mu_init:
  assumes "init pr F m0 s = Inr w"
  shows "set_mu pr w m = init pr F m s"
proof -
  from assms obtain ivs where r: "reshape2 (np_sort F) = Inr ivs"
    using init_Inr_reshape by blast
  from assms show ?thesis
    by (auto simp: init_def set_mu_def mu_or_sigma_changed_def intervals_def standardize_def r)
qed

lemma init_any_mu:
  assumes "init pr F m0 s = Inr w"
  shows "\<exists>w'. init pr F m s = Inr w'"
proof -
  from assms obtain ivs where r: "reshape2 (np_sort F) = Inr ivs"
    using init_Inr_reshape by blast
  show ?thesis
    by (simp add: init_def mu_or_sigma_changed_def intervals_def r)
qed

lemma init_ravel_Inr: "\<exists>w. init pr (ravel ivs) m s = Inr w"
  by (simp add: init_def mu_or_sigma_changed_def intervals_def reshape2_def np_sort_def)

lemma G_loop_eval:
  assumes "w < length st" "init pr (ravel ivs) m0 (Fin 1) = Inr (st ! w)"
  shows "snd (G_loop pr ps alpha w st res) =
           (case eval_pairs (G_sigma_one pr ivs alpha) ps of
              Inl e \<Rightarrow> Inl e
            | Inr gs \<Rightarrow> Inr (res @ gs))"
  using assms
proof (induction ps arbitrary: st res m0)
  case Nil
  then show ?case by simp
next
  case (Cons p ps)
  obtain l m where p: "p = (l, m)" by (cases p)
  obtain w' where w': "init pr (ravel ivs) m (Fin 1) = Inr w'"
    using init_any_mu[OF Cons.prems(2)] by blast
  have sm: "set_mu pr (st ! w) m = Inr w'"
    using set_mu_init[OF Cons.prems(2), of m] w' by simp
  have sa: "set_mu_at pr w m st = (st[w := w'], Inr ())"
    by (simp add: set_mu_at_def sm)
  have n: "st[w := w'] ! w = w'" using Cons.prems(1) by simp
  have ih: "snd (G_loop pr ps alpha w (st[w := w']) res') =
           (case eval_pairs (G_sigma_one pr ivs alpha) ps of
              Inl e \<Rightarrow> Inl e
            | Inr gs \<Rightarrow> Inr (res' @ gs))" for res'
    by (rule Cons.IH[of "st[w := w']" m]) (simp_all add: Cons.prems(1) n w')
  show ?case
    by (simp add: p sa n w' ih G_sigma_one_def split: sum.splits)
qed

lemma dG_loop_eval:
  assumes "w < length st" "init pr (ravel ivs) m0 (Fin 1) = Inr (st ! w)"
  shows "snd (dG_loop pr ps alpha w st res) =
           (case eval_pairs (dG_sigma_one pr ivs alpha) ps of
              Inl e \<Rightarrow> Inl e
            | Inr gs \<Rightarrow> Inr (res @ gs))"
  using assms
proof (induction ps arbitrary: st res m0)
  case Nil
  then show ?case by simp
next
  case (Cons p ps)
  obtain l m where p: "p = (l, m)" by (cases p)
  obtain w' where w': "init pr (ravel ivs) m (Fin 1) = Inr w'"
    using init_any_mu[OF Cons.prems(2)] by blast
  have sm: "set_mu pr (st ! w) m = Inr w'"
    using set_mu_init[OF Cons.prems(2), of m] w' by simp
  have sa: "set_mu_at pr w m st = (st[w := w'], Inr ())"
    by (simp add: set_mu_at_def sm)
  have n: "st[w := w'] ! w = w'" using Cons.prems(1) by simp
  have ih: "snd (dG_loop pr ps alpha w (st[w := w']) res') =
           (case eval_pairs (dG_sigma_one pr ivs alpha) ps of
              Inl e \<Rightarrow> Inl e
            | Inr gs \<Rightarrow> Inr (res' @ gs))" for res'
    by (rule Cons.IH[of "st[w := w']" m]) (simp_all add: Cons.prems(1) n w')
  show ?case
    by (simp add: p sa n w' ih dG_sigma_one_def split: sum.splits)
qed

lemma G_batch_eval:
  assumes "intervals (st ! r) = Inr ivs"
  shows "snd (G_batch pr les mus alpha r st) = eval_pairs (G_sigma_one pr ivs alpha) (zip les mus)"
proof -
  obtain w0 where w0: "init pr (ravel ivs) (Fin 0) (Fin 1) = Inr w0"
    using init_ravel_Inr by blast
  have "snd (G_loop pr (zip les mus) alpha (length st) (st @ [w0]) []) =
        (case eval_pairs (G_sigma_one pr ivs alpha) (zip les mus) of
              Inl e \<Rightarrow> Inl e
            | Inr gs \<Rightarrow> Inr ([] @ gs))"
    by (rule G_loop_eval[of _ _ _ _ "Fin 0"]) (simp_all add: w0)
  then show ?thesis
    by (simp add: G_batch_def assms new_object_def w0 split: sum.splits)
qed

lemma dG_batch_eval:
  assumes "intervals (st ! r) = Inr ivs"
  shows "snd (dG_batch pr les mus alpha r st) = eval_pairs (dG_sigma_one pr ivs alpha) (zip les mus)"
proof -
  obtain w0 where w0: "init pr (ravel ivs) (Fin 0) (Fin 1) = Inr w0"
    using init_ravel_Inr by blast
  have "snd (dG_loop pr (zip les mus) alpha (length st) (st @ [w0]) []) =
        (case eval_pairs (dG_sigma_one pr ivs alpha) (zip les mus) of
              Inl e \<Rightarrow> Inl e
            | Inr gs \<Rightarrow> Inr ([] @ gs))"
    by (rule dG_loop_eval[of _ _ _ _ "Fin 0"]) (simp_all add: w0)
  then show ?thesis
    by (simp add: dG_batch_def assms new_object_def w0 split: sum.splits)
qed

text \<open>
  Claim C9. The batch functions build their object from the intervals of the template
  alone: whatever \<open>sigma\<close> (and \<open>mu\<close>) the template has, each pair is evaluated on the
  object with these intervals, the pair's \<open>mu\<close> and \<open>sigma = 1\<close>.
\<close>

theorem batch_sigma_is_one:
  assumes "intervals (st ! r) = Inr ivs"
  shows "snd (G_batch pr left_endpoints mus alpha r st) =
           eval_pairs (G_sigma_one pr ivs alpha) (zip left_endpoints mus) \<and>
         snd (dG_batch pr left_endpoints mus alpha r st) =
           eval_pairs (dG_sigma_one pr ivs alpha) (zip left_endpoints mus)"
  using assms by (simp add: G_batch_eval dG_batch_eval)

lemma intervals_wide: "intervals wide_obj = Inr [(NInf, PInf)]"
  by (simp add: intervals_def reshape2_def wide_obj_def)

lemma init_line2: "init demo_prims [NInf, PInf] (Fin 2) (Fin 1) = Inr line_obj2"
  using set_mu_init[OF init_line, of "Fin 2"] set_mu_line2 by simp

lemma dG_line2: "dG demo_prims line_obj2 (Fin 0) (Fin (1/6)) = Inr PInf"
  by (simp add: dG_def right_endpoint_line2 sub_def standardize_def)
     (simp add: line_obj2_def demo_prims_def demo_dnorm_def)

theorem batch_sigma_is_one_witness:
  "intervals ([wide_obj] ! 0) = Inr [(NInf, PInf)] \<and> sigma ([wide_obj] ! 0) = Fin 3 \<and>
   snd (G_batch demo_prims [Fin 0] [Fin 2] (Fin (1/6)) 0 [wide_obj]) = Inr [Fin (1/18)] \<and>
   snd (dG_batch demo_prims [Fin 0] [Fin 2] (Fin (1/6)) 0 [wide_obj]) = Inr [PInf]"
proof -
  have i: "intervals ([wide_obj] ! 0) = Inr [(NInf, PInf)]" by (simp add: intervals_wide)
  have s: "sigma ([wide_obj] ! 0) = Fin 3" by (simp add: wide_obj_def)
  from batch_sigma_is_one[OF i, of demo_prims "[Fin 0]" "[Fin 2]" "Fin (1/6)"] i s
  show ?thesis
    by (simp add: G_sigma_one_def dG_sigma_one_def init_line2 G_line2 dG_line2)
qed


section \<open>The cache of \<open>negated\<close>\<close>

text \<open>
  Claim C10. The first read of \<open>negated\<close> builds the negated object with the \<open>mu\<close> and
  \<open>sigma\<close> of that moment and keeps it. After \<open>set_mu\<close> or \<open>set_sigma\<close> on the original,
  \<open>negated\<close> returns the same object, which still has the old parameters.
\<close>

theorem negated_cache_is_stale:
  assumes "r < length st" "negated_attr (st ! r) = None" "negated pr r st = (st1, Inr n)"
  shows "negated pr r (fst (set_mu_at pr r v st1)) = (fst (set_mu_at pr r v st1), Inr n) \<and>
         mu (fst (set_mu_at pr r v st1) ! r) = v \<and>
         mu (fst (set_mu_at pr r v st1) ! n) = mu (st ! r) \<and>
         sigma (fst (set_mu_at pr r v st1) ! n) = sigma (st ! r) \<and>
         negated pr r (fst (set_sigma_at pr r v st1)) = (fst (set_sigma_at pr r v st1), Inr n) \<and>
         sigma (fst (set_sigma_at pr r v st1) ! r) = v \<and>
         mu (fst (set_sigma_at pr r v st1) ! n) = mu (st ! r) \<and>
         sigma (fst (set_sigma_at pr r v st1) ! n) = sigma (st ! r)"
proof -
  from assms(2,3) obtain t where
    t: "init pr (map neg (rev (cutoff_array (st ! r)))) (mu (st ! r)) (sigma (st ! r)) = Inr t"
    and n: "n = length st"
    and st1: "st1 = (st @ [t])[r := ((st @ [t]) ! r)\<lparr>negated_attr := Some n\<rparr>]"
    by (auto simp: negated_def new_object_def split: sum.splits)
  have tm: "mu t = mu (st ! r)" "sigma t = sigma (st ! r)"
    using t by (auto simp: init_def mu_or_sigma_changed_def split: sum.splits)
  have rn: "r \<noteq> n" "r < length st1" "n < length st1" using assms(1) n st1 by simp_all
  have a1: "negated_attr (st1 ! r) = Some n" using assms(1) st1 by simp
  have tn: "st1 ! n = t" using rn n st1 by simp
  have c1: "negated_attr (fst (set_mu_at pr r v st1) ! r) = Some n"
    using rn a1 by (auto simp: set_mu_at_def set_mu_def mu_or_sigma_changed_def split: sum.splits)
  have c2: "negated_attr (fst (set_sigma_at pr r v st1) ! r) = Some n"
    using rn a1 by (auto simp: set_sigma_at_def set_sigma_def mu_or_sigma_changed_def split: sum.splits)
  have m1: "mu (fst (set_mu_at pr r v st1) ! r) = v"
    using rn by (auto simp: set_mu_at_def set_mu_def mu_or_sigma_changed_def split: sum.splits)
  have m2: "sigma (fst (set_sigma_at pr r v st1) ! r) = v"
    using rn by (auto simp: set_sigma_at_def set_sigma_def mu_or_sigma_changed_def split: sum.splits)
  have o1: "fst (set_mu_at pr r v st1) ! n = t"
    using set_mu_at_other[of n r pr v st1] rn tn by simp
  have o2: "fst (set_sigma_at pr r v st1) ! n = t"
    using set_sigma_at_other[of n r pr v st1] rn tn by simp
  show ?thesis
    by (simp add: negated_def c1 c2 m1 m2 o1 o2 tm)
qed

lemma negated_line:
  "negated demo_prims 0 [line_obj] =
     ([line_obj\<lparr>negated_attr := Some 1\<rparr>, line_obj], Inr 1)"
proof -
  have c: "map neg (rev (cutoff_array line_obj)) = [NInf, PInf]" "mu line_obj = Fin 0"
    "sigma line_obj = Fin 1" "negated_attr line_obj = None"
    by (simp_all add: line_obj_def)
  show ?thesis by (simp add: negated_def new_object_def c init_line)
qed

theorem negated_cache_is_stale_witness:
  "(0::nat) < length [line_obj] \<and> negated_attr ([line_obj] ! 0) = None \<and>
   negated demo_prims 0 [line_obj] = ([line_obj\<lparr>negated_attr := Some 1\<rparr>, line_obj], Inr 1) \<and>
   mu (fst (set_mu_at demo_prims 0 (Fin 2) [line_obj\<lparr>negated_attr := Some 1\<rparr>, line_obj]) ! 0) = Fin 2 \<and>
   mu (fst (set_mu_at demo_prims 0 (Fin 2) [line_obj\<lparr>negated_attr := Some 1\<rparr>, line_obj]) ! 1) = Fin 0 \<and>
   sigma (fst (set_sigma_at demo_prims 0 (Fin 2) [line_obj\<lparr>negated_attr := Some 1\<rparr>, line_obj]) ! 0) = Fin 2 \<and>
   sigma (fst (set_sigma_at demo_prims 0 (Fin 2) [line_obj\<lparr>negated_attr := Some 1\<rparr>, line_obj]) ! 1) = Fin 1"
proof -
  have l: "(0::nat) < length [line_obj]" by simp
  have c: "negated_attr ([line_obj] ! 0) = None" "mu ([line_obj] ! 0) = Fin 0"
    "sigma ([line_obj] ! 0) = Fin 1"
    by (simp_all add: line_obj_def)
  from negated_cache_is_stale[OF l c(1) negated_line, of "Fin 2"] l c negated_line
  show ?thesis by simp
qed

section \<open>The interval set of a constructed object\<close>

lemma sort_rank_inj: "sort_rank a = sort_rank b \<Longrightarrow> a = b"
  by (cases a; cases b) simp_all

lemma set_pairs_fst: "(a, b) \<in> set (pairs c) \<Longrightarrow> a \<in> set c \<and> b \<in> set c"
  by (induction c rule: pairs.induct) auto

lemma pairs_rank_chain:
  "sorted (map sort_rank c) \<Longrightarrow>
   sorted_wrt (\<lambda>i j. sort_rank (fst i) \<le> sort_rank (fst j)) (pairs c) \<and>
   sorted_wrt (\<lambda>i j. sort_rank (snd i) \<le> sort_rank (fst j)) (pairs c) \<and>
   (\<forall>i\<in>set (pairs c). sort_rank (fst i) \<le> sort_rank (snd i))"
proof (induction c rule: pairs.induct)
  case (1 a b xs)
  from 1 have s: "sort_rank a \<le> sort_rank b" "\<forall>x\<in>set xs. sort_rank b \<le> sort_rank x"
    "sorted (map sort_rank xs)"
    by auto
  have "\<forall>i\<in>set (pairs xs). sort_rank b \<le> sort_rank (fst i)"
    using s(2) set_pairs_fst by (metis prod.collapse)
  with s 1 show ?case by (auto intro: order_trans)
qed simp_all

lemma pairs_equal_count:
  "(a, a) \<in> set (pairs c) \<Longrightarrow> 2 \<le> count_list c a"
  by (induction c rule: pairs.induct) auto

lemma count_list_np_sort: "count_list (np_sort c) a = count_list c a"
  by (metis count_mset mset_sort np_sort_def)

lemma kept_positive:
  assumes "a \<noteq> NaN" "b \<noteq> NaN" "sort_rank a \<le> sort_rank b" "ne (sub b a) (Fin 0)"
    "a = b \<longrightarrow> a \<noteq> NInf \<and> a \<noteq> PInf"
  shows "lt a b"
proof -
  have "a \<noteq> b" using assms(1,4,5) by (cases a) (auto simp: ne_def sub_def)
  then have "sort_rank a \<noteq> sort_rank b" using sort_rank_inj by blast
  with assms(1-3) show ?thesis by (simp add: lt_def)
qed

lemma intervals_init:
  "init pr flat m s = Inr t \<Longrightarrow>
   intervals t = Inr (filter (\<lambda>(a, b). ne (sub b a) (Fin 0)) (pairs (np_sort flat)))"
  by (auto simp: init_def reshape2_def mu_or_sigma_changed_def intervals_def split: if_splits)

lemma init_even: "even (length flat) \<Longrightarrow> \<exists>t. init pr flat m s = Inr t"
  by (simp add: init_def reshape2_def mu_or_sigma_changed_def intervals_def np_sort_def)

lemma sorted_np_sort: "sorted (map sort_rank (np_sort flat))"
  by (simp add: np_sort_def)

lemma filtered_wf:
  assumes "NaN \<notin> set flat" "count_list flat NInf \<le> 1" "count_list flat PInf \<le> 1"
  shows "wf_intervals (filter (\<lambda>(a, b). ne (sub b a) (Fin 0)) (pairs (np_sort flat)))"
proof -
  let ?c = "np_sort flat"
  let ?keep = "\<lambda>(a, b). ne (sub b a) (Fin 0)"
  have nan: "NaN \<notin> set ?c" using assms(1) by (simp add: np_sort_def)
  have ch: "sorted_wrt (\<lambda>i j. sort_rank (fst i) \<le> sort_rank (fst j)) (pairs ?c)"
    "sorted_wrt (\<lambda>i j. sort_rank (snd i) \<le> sort_rank (fst j)) (pairs ?c)"
    "\<forall>i\<in>set (pairs ?c). sort_rank (fst i) \<le> sort_rank (snd i)"
    using pairs_rank_chain[OF sorted_np_sort] by blast+
  have nn: "\<forall>i\<in>set (pairs ?c). fst i \<noteq> NaN \<and> snd i \<noteq> NaN"
    using nan set_pairs_fst by (metis prod.collapse)
  have s1: "sorted_wrt (\<lambda>i j. le (fst i) (fst j)) (pairs ?c)"
    by (rule sorted_wrt_mono_rel[OF _ ch(1)]) (use nn in \<open>auto simp: le_def\<close>)
  have s2: "sorted_wrt (\<lambda>i j. le (snd i) (fst j)) (pairs ?c)"
    by (rule sorted_wrt_mono_rel[OF _ ch(2)]) (use nn in \<open>auto simp: le_def\<close>)
  have pos: "lt (fst i) (snd i)" if i: "i \<in> set (pairs ?c)" and k: "?keep i" for i
  proof -
    obtain a b where ab: "i = (a, b)" by (cases i)
    have "a = b \<longrightarrow> a \<noteq> NInf \<and> a \<noteq> PInf"
    proof (intro impI)
      assume "a = b"
      with i ab have "(a, a) \<in> set (pairs ?c)" by simp
      then have "2 \<le> count_list ?c a" by (rule pairs_equal_count)
      then have "2 \<le> count_list flat a" by (simp add: count_list_np_sort)
      with assms(2,3) show "a \<noteq> NInf \<and> a \<noteq> PInf" by auto
    qed
    moreover have "a \<noteq> NaN" "b \<noteq> NaN" "sort_rank a \<le> sort_rank b"
      using nn ch(3) i ab by fastforce+
    moreover have "ne (sub b a) (Fin 0)" using k ab by simp
    ultimately have "lt a b"
      using kept_positive[of a b] by blast
    then show ?thesis by (simp add: ab)
  qed
  show ?thesis
    unfolding wf_intervals_def
    using sorted_wrt_filter[OF s1, of ?keep] sorted_wrt_filter[OF s2, of ?keep] pos
    by auto
qed

lemma wf_no_zero_width: "wf_intervals ivs \<Longrightarrow> (c, c) \<notin> set ivs"
  by (auto simp: wf_intervals_def lt_def)

text \<open>
  Claim C6, amended. For every raw interval list without NaN in which neither infinity
  occurs more than once among the endpoints, the constructor raises no error and the
  interval set of the object is sorted ascending, mutually disjoint and of strictly
  positive widths; in particular a zero-width interval of the raw list leaves no
  zero-width interval in the object.
\<close>

theorem init_wf_intervals:
  assumes "NaN \<notin> set (ravel raw)" "count_list (ravel raw) NInf \<le> 1"
    "count_list (ravel raw) PInf \<le> 1"
  shows "\<exists>t ivs. init pr (ravel raw) m s = Inr t \<and> intervals t = Inr ivs \<and>
           wf_intervals ivs \<and> (\<forall>c. (c, c) \<notin> set ivs)"
proof -
  obtain t where t: "init pr (ravel raw) m s = Inr t" using init_ravel_Inr by blast
  from intervals_init[OF t] filtered_wf[OF assms] t wf_no_zero_width show ?thesis by blast
qed

lemma np_sort_w:
  "np_sort [Fin 0, Fin 1, Fin 5, Fin 5, NInf, Fin (- 1)] = [NInf, Fin (- 1), Fin 0, Fin 1, Fin 5, Fin 5]"
  by (simp add: np_sort_def)

lemma intervals_w:
  "intervals (projr (init demo_prims (ravel [(Fin 0, Fin 1), (Fin 5, Fin 5), (NInf, Fin (- 1))]) (Fin 0) (Fin 1)))
     = Inr [(NInf, Fin (- 1)), (Fin 0, Fin 1)]"
  by (simp add: init_def np_sort_w reshape2_def ne_def sub_def mu_or_sigma_changed_def intervals_def)

theorem init_wf_intervals_witness:
  "NaN \<notin> set (ravel [(Fin 0, Fin 1), (Fin 5, Fin 5), (NInf, Fin (- 1))]) \<and>
   count_list (ravel [(Fin 0, Fin 1), (Fin 5, Fin 5), (NInf, Fin (- 1))]) NInf \<le> 1 \<and>
   count_list (ravel [(Fin 0, Fin 1), (Fin 5, Fin 5), (NInf, Fin (- 1))]) PInf \<le> 1 \<and>
   intervals (projr (init demo_prims (ravel [(Fin 0, Fin 1), (Fin 5, Fin 5), (NInf, Fin (- 1))]) (Fin 0) (Fin 1)))
     = Inr [(NInf, Fin (- 1)), (Fin 0, Fin 1)] \<and>
   wf_intervals [(NInf, Fin (- 1)), (Fin 0, Fin 1)]"
proof -
  have h: "NaN \<notin> set (ravel [(Fin 0, Fin 1), (Fin 5, Fin 5), (NInf, Fin (- 1))])"
    "count_list (ravel [(Fin 0, Fin 1), (Fin 5, Fin 5), (NInf, Fin (- 1))]) NInf \<le> 1"
    "count_list (ravel [(Fin 0, Fin 1), (Fin 5, Fin 5), (NInf, Fin (- 1))]) PInf \<le> 1"
    by simp_all
  from init_wf_intervals[OF h, of demo_prims "Fin 0" "Fin 1"] intervals_w h
  show ?thesis by auto
qed

text \<open>
  The claim C6 as stated fails on a raw list in which an infinity occurs twice: the
  difference of two equal infinities is NaN, which is \<open>!= 0\<close>, so the pair of the two is
  kept, as an interval without positive width. It fails as well on a raw list with a NaN,
  which the constructor accepts like any number.
\<close>

lemma np_sort_rays: "np_sort [Fin 1, PInf, Fin 2, PInf] = [Fin 1, Fin 2, PInf, PInf]"
  by (simp add: np_sort_def)

theorem init_wf_intervals_counterexample:
  "intervals (projr (init demo_prims (ravel [(Fin 1, PInf), (Fin 2, PInf)]) (Fin 0) (Fin 1)))
     = Inr [(Fin 1, Fin 2), (PInf, PInf)] \<and>
   \<not> wf_intervals [(Fin 1, Fin 2), (PInf, PInf)] \<and>
   intervals (projr (init demo_prims (ravel [(PInf, PInf)]) (Fin 0) (Fin 1))) = Inr [(PInf, PInf)] \<and>
   \<not> wf_intervals [(PInf, PInf)] \<and>
   intervals (projr (init demo_prims (ravel [(Fin 0, NaN)]) (Fin 0) (Fin 1))) = Inr [(Fin 0, NaN)] \<and>
   \<not> wf_intervals [(Fin 0, NaN)]"
  by (simp add: init_def np_sort_rays np_sort_def reshape2_def ne_def sub_def mu_or_sigma_changed_def
      intervals_def wf_intervals_def lt_def)

text \<open>On a constructed object no query raises the error \<open>intervals are not disjoint\<close>.\<close>

lemma init_never_ambiguous:
  assumes "init pr flat m s = Inr t"
  shows "find_interval t x \<noteq> Inl NotDisjoint"
proof -
  let ?ivs = "filter (\<lambda>(a, b). ne (sub b a) (Fin 0)) (pairs (np_sort flat))"
  have iv: "intervals t = Inr ?ivs" using intervals_init[OF assms] .
  have ch: "sorted_wrt (\<lambda>i j. sort_rank (snd i) \<le> sort_rank (fst j)) ?ivs"
    using pairs_rank_chain[OF sorted_np_sort, of flat] by (simp add: sorted_wrt_filter)
  have "card (spec_matching ?ivs x) \<le> 1"
  proof (rule ccontr)
    assume "\<not> card (spec_matching ?ivs x) \<le> 1"
    then have "1 < card (spec_matching ?ivs x)" by simp
    then obtain i j where ij: "i \<in> spec_matching ?ivs x" "j \<in> spec_matching ?ivs x" "i \<noteq> j"
      by (metis One_nat_def card_le_Suc0_iff_eq finite_spec_matching not_less)
    have False if lt: "i < j" and i: "i \<in> spec_matching ?ivs x" and j: "j \<in> spec_matching ?ivs x" for i j
    proof -
      from j have jl: "j < length ?ivs" by (simp add: spec_matching_def)
      from ch lt jl have "sort_rank (snd (?ivs ! i)) \<le> sort_rank (fst (?ivs ! j))"
        by (simp add: sorted_wrt_iff_nth_less)
      moreover from i have "sort_rank x < sort_rank (snd (?ivs ! i))"
        by (simp add: spec_matching_def lt_def)
      moreover from j have "sort_rank (fst (?ivs ! j)) \<le> sort_rank x"
        by (simp add: spec_matching_def le_def)
      ultimately show False by simp
    qed
    with ij show False by (metis nat_neq_iff)
  qed
  then show ?thesis
    using iv by (simp add: find_interval_def length_nonzero_matching Let_def)
qed

section \<open>The distribution function and the quantile when \<open>sigma\<close> is 1\<close>

text \<open>
  With \<open>sigma = 1\<close> the partial mass of \<open>CDF\<close> is standardised like the masses \<open>P\<close>, and
  with exact primitives \<open>quantile\<close> inverts \<open>CDF\<close> at every point strictly inside an
  interval of a constructed object.
\<close>

lemma divide_num_one [simp]: "divide_num y (Fin 1) = y"
  by (cases y) simp_all

lemma standardize_sigma_one: "sigma t = Fin 1 \<Longrightarrow> standardize t a = sub a (mu t)"
  by (simp add: standardize_def)

lemma find_interval_Inr_less:
  assumes "find_interval t x = Inr k" "intervals t = Inr ivs"
  shows "k < length ivs \<and> le (fst (ivs ! k)) x \<and> lt x (snd (ivs ! k))"
proof -
  let ?ks = "nonzero (map (\<lambda>(a, b). ge x a \<and> lt x b) ivs)"
  from assms have "?ks \<noteq> []" "?ks ! 0 = k"
    by (auto simp: find_interval_def Let_def split: if_splits)
  then have "k \<in> set ?ks" by (metis length_greater_0_conv nth_mem)
  then show ?thesis
    unfolding nonzero_matching by (simp add: spec_matching_def)
qed

lemma CDF_sigma_one:
  assumes "sigma t = Fin 1" "find_interval t x = Inr k" "intervals t = Inr ivs"
  shows "CDF pr t x =
           Inr (divide_num
                  (add (np_sum (take k (P t)))
                       (cdf pr (standardize t (fst (ivs ! k))) (standardize t x)))
                  (np_sum (P t)))"
  using assms find_interval_Inr_less[OF assms(2,3)]
  by (simp add: CDF_def standardize_sigma_one)

lemma foldl_add_Fin: "foldl add (Fin c) (map Fin ps) = Fin (c + sum_list ps)"
  by (induction ps arbitrary: c) (simp_all add: add.assoc)

lemma np_sum_Fin: "np_sum (map Fin ps) = Fin (sum_list ps)"
  by (simp add: np_sum_def foldl_add_Fin)

lemma cumsum_from_Fin:
  "cumsum_from (Fin c) (map Fin ps) = map (\<lambda>j. Fin (c + sum_list (take (Suc j) ps))) [0..<length ps]"
proof (induction ps arbitrary: c)
  case Nil
  then show ?case by simp
next
  case (Cons p ps)
  have "[0..<length (p # ps)] = 0 # map Suc [0..<length ps]"
    by (simp only: length_Cons map_Suc_upt upt_conv_Cons[OF zero_less_Suc])
  then show ?case by (simp add: Cons.IH comp_def add.assoc)
qed

lemma cumsum_Fin:
  "cumsum (Fin 0 # map Fin ps) = map (\<lambda>j. Fin (sum_list (take j ps))) [0..<Suc (length ps)]"
proof -
  have "[0..<Suc (length ps)] = 0 # map Suc [0..<length ps]"
    by (simp only: map_Suc_upt upt_conv_Cons[OF zero_less_Suc])
  then show ?thesis by (simp add: cumsum_def cumsum_from_Fin comp_def)
qed

lemma take_sum_mono:
  assumes "\<forall>p\<in>set ps. 0 < (p::real)" "i \<le> j"
  shows "sum_list (take i ps) \<le> sum_list (take j ps)"
proof -
  have "take j ps = take i ps @ take (j - i) (drop i ps)"
    using assms(2) by (metis le_add_diff_inverse take_add)
  moreover have "0 \<le> sum_list (take (j - i) (drop i ps))"
    using assms(1) by (intro sum_list_nonneg) (meson in_set_dropD in_set_takeD less_imp_le)
  ultimately show ?thesis by simp
qed

lemma take_sum_Suc: "k < length ps \<Longrightarrow> sum_list (take (Suc k) ps) = sum_list (take k ps) + ps ! k"
  by (simp add: take_Suc_conv_app_nth)

lemma nonzero_below:
  assumes "\<forall>p\<in>set ps. 0 < (p::real)" "k < length ps" "0 < d" "d < ps ! k"
  shows "set (nonzero (map (\<lambda>c. lt c (Fin (sum_list (take k ps) + d))) (cumsum (Fin 0 # map Fin ps))))
           = {0..k}"
proof -
  have a: "sum_list (take j ps) < sum_list (take k ps) + d" if "j \<le> k" for j
    using take_sum_mono[OF assms(1) that] assms(3) by simp
  have b: "\<not> sum_list (take j ps) < sum_list (take k ps) + d" if "k < j" for j
  proof -
    have "sum_list (take (Suc k) ps) \<le> sum_list (take j ps)"
      using take_sum_mono[OF assms(1), of "Suc k" j] that by simp
    then show ?thesis using take_sum_Suc[OF assms(2)] assms(4) by simp
  qed
  show ?thesis
    using a b assms(2)
    by (auto simp: set_nonzero cumsum_Fin lt_def simp del: upt_Suc) (meson not_less)
qed

lemma sub_Fin_simps [simp]:
  "sub NInf (Fin m) = NInf" "sub (Fin a) (Fin m) = Fin (a - m)" "sub PInf (Fin m) = PInf"
  "sub NaN (Fin m) = NaN"
  by (simp_all add: sub_def)

lemma sub_Fin_NaN: "a \<noteq> NaN \<Longrightarrow> sub a (Fin m) \<noteq> NaN"
  by (cases a) simp_all

lemma lt_shift: "lt a b \<Longrightarrow> lt (sub a (Fin m)) (sub b (Fin m))"
  by (cases a; cases b) (simp_all add: lt_def)

lemma wf_matching_unique:
  assumes "wf_intervals ivs" "k < length ivs" "le (fst (ivs ! k)) x" "lt x (snd (ivs ! k))"
  shows "spec_matching ivs x = {k}"
proof -
  have ch: "sorted_wrt (\<lambda>i j. le (snd i) (fst j)) ivs"
    using assms(1) by (simp add: wf_intervals_def)
  have no: False if "i < j" "j < length ivs" "lt x (snd (ivs ! i))" "le (fst (ivs ! j)) x" for i j
  proof -
    from ch that(1,2) have "le (snd (ivs ! i)) (fst (ivs ! j))"
      by (simp add: sorted_wrt_iff_nth_less)
    with that(3,4) have "sort_rank x < sort_rank (snd (ivs ! i))"
      "sort_rank (snd (ivs ! i)) \<le> sort_rank (fst (ivs ! j))"
      "sort_rank (fst (ivs ! j)) \<le> sort_rank x"
      by (simp_all add: le_def lt_def)
    then show False by (metis leD order_trans)
  qed
  have "j = k" if "j \<in> spec_matching ivs x" for j
  proof (rule ccontr)
    assume "j \<noteq> k"
    then consider "j < k" | "k < j" by linarith
    then show False
      using that assms(2-4) no[of j k] no[of k j] by cases (auto simp: spec_matching_def)
  qed
  moreover have "k \<in> spec_matching ivs x"
    using assms(2-4) by (simp add: spec_matching_def)
  ultimately show ?thesis by blast
qed

lemma lt_imp_le: "lt a b \<Longrightarrow> le a b"
  by (simp add: lt_def le_def less_imp_le)

lemma P_fresh:
  assumes "mu_or_sigma_changed pr t = Inr t" "intervals t = Inr ivs"
  shows "P t = map (\<lambda>(a, b). cdf pr (standardize t a) (standardize t b)) ivs"
proof -
  from assms have "t\<lparr>P := map (\<lambda>(a, b). cdf pr (standardize t a) (standardize t b)) ivs,
      D := map (\<lambda>(a, b). (dnorm pr (standardize t a), dnorm pr (standardize t b))) ivs\<rparr> = t"
    by (simp add: mu_or_sigma_changed_def)
  then have "P (t\<lparr>P := map (\<lambda>(a, b). cdf pr (standardize t a) (standardize t b)) ivs,
      D := map (\<lambda>(a, b). (dnorm pr (standardize t a), dnorm pr (standardize t b))) ivs\<rparr>) = P t"
    by simp
  then show ?thesis by simp
qed

lemma quantile_CDF_sigma_one:
  assumes en: "exact_normal pr Phi"
    and iv: "intervals t = Inr ivs" and wf: "wf_intervals ivs"
    and fresh: "mu_or_sigma_changed pr t = Inr t"
    and mu: "mu t = Fin m" and sg: "sigma t = Fin 1"
    and k: "k < length ivs"
    and inside: "lt (fst (ivs ! k)) (Fin v)" "lt (Fin v) (snd (ivs ! k))"
  shows "\<exists>q. CDF pr t (Fin v) = Inr q \<and> quantile pr t q = Inr (Fin v)"
proof -
  define sh where "sh = (\<lambda>a. sub a (Fin m))"
  define ps where "ps = map (\<lambda>(a, b). Phi (sh b) - Phi (sh a)) ivs"
  define ak where "ak = fst (ivs ! k)"
  define d where "d = Phi (Fin (v - m)) - Phi (sh ak)"
  define S where "S = sum_list (take k ps)"
  define T where "T = sum_list ps"
  from en have cdf: "\<And>a b. a \<noteq> NaN \<Longrightarrow> b \<noteq> NaN \<Longrightarrow> cdf pr a b = Fin (Phi b - Phi a)"
    and mono: "\<And>a b. lt a b \<Longrightarrow> Phi a < Phi b"
    and qn: "\<And>y. qnorm pr (Fin (Phi (Fin y))) = Inr (Fin y)"
    and sym: "\<And>y. Phi (Fin (- y)) = 1 - Phi (Fin y)"
    and inf: "Phi NInf = 0" "Phi PInf = 1"
    by (simp_all add: exact_normal_def)
  have pos_w: "lt (fst i) (snd i)" if "i \<in> set ivs" for i
    using wf that by (simp add: wf_intervals_def)
  have std: "standardize t a = sh a" for a
    by (simp add: standardize_sigma_one[OF sg] mu sh_def)
  have P: "P t = map Fin ps"
  proof -
    have "cdf pr (sh a) (sh b) = Fin (Phi (sh b) - Phi (sh a))" if "(a, b) \<in> set ivs" for a b
    proof -
      from pos_w[OF that] have "a \<noteq> NaN" "b \<noteq> NaN" by (auto simp: lt_def)
      then show ?thesis by (simp add: cdf sh_def sub_Fin_NaN)
    qed
    then show ?thesis
      by (auto simp: P_fresh[OF fresh iv] std ps_def)
  qed
  have len: "length ps = length ivs" by (simp add: ps_def)
  have pspos: "\<forall>p\<in>set ps. 0 < p"
  proof
    fix p assume "p \<in> set ps"
    then obtain a b where ab: "(a, b) \<in> set ivs" "p = Phi (sh b) - Phi (sh a)"
      by (auto simp: ps_def)
    from pos_w[OF ab(1)] have "lt (sh a) (sh b)" by (simp add: sh_def lt_shift)
    then show "0 < p" using mono ab(2) by simp
  qed
  have psk: "ps ! k = Phi (sh (snd (ivs ! k))) - Phi (sh ak)"
    using k by (simp add: ps_def ak_def split: prod.splits)
  have ak_nn: "ak \<noteq> NaN" "sh ak \<noteq> NaN"
    using inside(1) by (auto simp: ak_def lt_def sh_def sub_Fin_NaN)
  have shv: "sh (Fin v) = Fin (v - m)" by (simp add: sh_def)
  have d0: "0 < d"
    using mono[OF lt_shift[OF inside(1), of m]] by (simp add: d_def ak_def sh_def)
  have d1: "d < ps ! k"
    using mono[OF lt_shift[OF inside(2), of m]] by (simp add: d_def psk sh_def)
  have Tpos: "0 < T"
  proof -
    have "sum_list (take (Suc k) ps) \<le> sum_list (take (length ps) ps)"
      using take_sum_mono[OF pspos, of "Suc k" "length ps"] k len by simp
    moreover have "0 \<le> sum_list (take k ps)"
      using take_sum_mono[OF pspos, of 0 k] by simp
    ultimately show ?thesis
      using take_sum_Suc[of k ps] k len d0 d1 by (simp add: T_def)
  qed
  have fi: "find_interval t (Fin v) = Inr k"
    using find_interval_unique[OF iv wf_matching_unique[OF wf k lt_imp_le[OF inside(1)] inside(2)]] .
  have cdfv: "CDF pr t (Fin v) = Inr (Fin ((S + d) / T))"
    using Tpos ak_nn
    by (simp add: CDF_sigma_one[OF sg fi iv] std P take_map np_sum_Fin shv cdf
        S_def T_def d_def ak_def)
  have mulq: "mul (np_sum (P t)) (Fin ((S + d) / T)) = Fin (S + d)"
    using Tpos by (simp add: P np_sum_Fin T_def)
  have ks: "set (nonzero (map (\<lambda>c. lt c (Fin (S + d))) (cumsum (Fin 0 # P t)))) = {0..k}"
    unfolding P S_def using nonzero_below[OF pspos _ d0 d1] k len by simp
  then have ne: "nonzero (map (\<lambda>c. lt c (Fin (S + d))) (cumsum (Fin 0 # P t))) \<noteq> []"
    by auto
  have mx: "Max (set (nonzero (map (\<lambda>c. lt c (Fin (S + d))) (cumsum (Fin 0 # P t))))) = k"
    unfolding ks by (rule Max_eqI) simp_all
  have ck: "cumsum (Fin 0 # P t) ! k = Fin S"
    using k len by (simp add: P cumsum_Fin S_def del: upt_Suc)
  have inc: "sub (Fin (S + d)) (Fin S) = Fin d" by simp
  have b1: "qnorm pr (add (cdf pr NInf (sub ak (Fin m))) (Fin d)) = Inr (Fin (v - m))"
    using ak_nn qn[of "v - m"] by (simp add: cdf inf d_def sh_def)
  have b2: "qnorm pr (sub (cdf pr (sub ak (Fin m)) PInf) (Fin d)) = Inr (Fin (- (v - m)))"
  proof -
    have "sub (cdf pr (sub ak (Fin m)) PInf) (Fin d) = Fin (1 - Phi (Fin (v - m)))"
      using ak_nn by (simp add: cdf inf d_def sh_def)
    also have "1 - Phi (Fin (v - m)) = Phi (Fin (- (v - m)))"
      by (simp only: sym)
    finally have "sub (cdf pr (sub ak (Fin m)) PInf) (Fin d) = Fin (Phi (Fin (- (v - m))))" .
    then show ?thesis using qn[of "- (v - m)"] by simp
  qed
  have "quantile pr t (Fin ((S + d) / T)) = Inr (Fin v)"
    using k
    by (simp add: quantile_def Let_def mulq ne mx ck inc iv mu b1 b2 ak_def[symmetric])
  with cdfv show ?thesis by blast
qed

lemma init_fresh:
  assumes "init pr flat m s = Inr t"
  shows "mu_or_sigma_changed pr t = Inr t"
proof -
  from assms obtain ivs where r: "reshape2 (np_sort flat) = Inr ivs"
    using init_Inr_reshape by blast
  from assms show ?thesis
    by (auto simp: init_def mu_or_sigma_changed_def intervals_def standardize_def r)
qed

lemma roundtrip_sigma_one:
  assumes "exact_normal pr Phi"
    and "NaN \<notin> set (ravel raw)" "count_list (ravel raw) NInf \<le> 1"
      "count_list (ravel raw) PInf \<le> 1"
    and "init pr (ravel raw) (Fin m) (Fin 1) = Inr t" "intervals t = Inr ivs"
    and "k < length ivs" "lt (fst (ivs ! k)) (Fin v)" "lt (Fin v) (snd (ivs ! k))"
  shows "\<exists>q. CDF pr t (Fin v) = Inr q \<and> quantile pr t q = Inr (Fin v)"
proof -
  have wf: "wf_intervals ivs"
    using intervals_init[OF assms(5)] filtered_wf[OF assms(2-4)] assms(6) by simp
  have ms: "mu t = Fin m" "sigma t = Fin 1"
    using assms(5) by (auto simp: init_def mu_or_sigma_changed_def split: sum.splits)
  show ?thesis
    using quantile_CDF_sigma_one[OF assms(1) assms(6) wf init_fresh[OF assms(5)] ms assms(7-9)] .
qed

text \<open>The stand-ins are exact for their sigmoid, so the assumption on the primitives can
  be met.\<close>

lemma demo_Phi_real_simps [simp]:
  "demo_Phi_real NInf = 0" "demo_Phi_real PInf = 1"
  "demo_Phi_real (Fin x) = 1/2 + x / (2 * (1 + \<bar>x\<bar>))"
  by (simp_all add: demo_Phi_real_def demo_Phi_def)

lemma sigmoid_bounds: "- 1 < x / (1 + \<bar>x\<bar>) \<and> x / (1 + \<bar>x\<bar>) < (1::real)"
proof -
  have "0 < 1 + \<bar>x\<bar>" by simp
  then show ?thesis by (simp add: field_simps abs_if)
qed

lemma sigmoid_mono:
  assumes "x < (y::real)"
  shows "x / (1 + \<bar>x\<bar>) < y / (1 + \<bar>y\<bar>)"
proof -
  have p: "0 < 1 + \<bar>x\<bar>" "0 < 1 + \<bar>y\<bar>" by simp_all
  have "x * (1 + \<bar>y\<bar>) < y * (1 + \<bar>x\<bar>)"
  proof (cases "0 \<le> x")
    case True
    with assms show ?thesis by (simp add: algebra_simps)
  next
    case False
    show ?thesis
    proof (cases "0 \<le> y")
      case True
      have "x * (1 + \<bar>y\<bar>) < 0" using False p(2) by (simp add: mult_neg_pos)
      moreover have "0 \<le> y * (1 + \<bar>x\<bar>)" using True by simp
      ultimately show ?thesis by simp
    next
      case False
      with \<open>\<not> 0 \<le> x\<close> assms show ?thesis by (simp add: algebra_simps)
    qed
  qed
  with p show ?thesis by (simp add: field_simps)
qed

lemma demo_Phi_mono: "lt a b \<Longrightarrow> demo_Phi_real a < demo_Phi_real b"
proof (cases a; cases b)
  fix x y assume ab: "a = Fin x" "b = Fin y" and "lt a b"
  then have "x < y" by (simp add: lt_def)
  from sigmoid_mono[OF this] show ?thesis by (simp add: ab field_simps)
next
  fix y assume ab: "a = NInf" "b = Fin y"
  from sigmoid_bounds[of y] show ?thesis by (simp add: ab field_simps)
next
  fix x assume ab: "a = Fin x" "b = PInf"
  from sigmoid_bounds[of x] show ?thesis by (simp add: ab field_simps)
qed (simp_all add: lt_def)

lemma demo_qnorm_at:
  assumes "0 < q" "q < 1" "if q < 1/2 then (2 * q - 1) / (2 * q) = y else (2 * q - 1) / (2 - 2 * q) = y"
  shows "demo_qnorm (Fin q) = Inr (Fin y)"
  using assms by (simp add: demo_qnorm_def split: if_splits)

lemma demo_qnorm_Phi: "demo_qnorm (Fin (demo_Phi_real (Fin y))) = Inr (Fin y)"
proof -
  define z where "z = y / (1 + \<bar>y\<bar>)"
  define q where "q = 1/2 + z / 2"
  have qe: "demo_Phi_real (Fin y) = q" by (simp add: q_def z_def)
  have zb: "- 1 < z" "z < 1" using sigmoid_bounds[of y] by (simp_all add: z_def)
  then have b: "0 < q" "q < 1" by (simp_all add: q_def)
  have p: "0 < 1 + \<bar>y\<bar>" by simp
  show ?thesis
  proof (cases "0 \<le> y")
    case True
    then have "0 \<le> z" by (simp add: z_def)
    then have h: "\<not> q < 1/2" by (simp add: q_def)
    have "z = y * (1 - z)" using True by (simp add: z_def field_simps)
    moreover have "0 < 1 - z" using zb by simp
    ultimately have "z / (1 - z) = y" by (simp add: field_simps)
    moreover have "(2 * q - 1) / (2 - 2 * q) = z / (1 - z)" by (simp add: q_def)
    ultimately show ?thesis unfolding qe using b h by (intro demo_qnorm_at) simp_all
  next
    case False
    then have "z < 0" by (simp add: z_def divide_neg_pos)
    then have h: "q < 1/2" by (simp add: q_def)
    have "z = y * (1 + z)" using False by (simp add: z_def field_simps)
    moreover have "0 < 1 + z" using zb by simp
    ultimately have "z / (1 + z) = y" by (simp add: field_simps)
    moreover have "(2 * q - 1) / (2 * q) = z / (1 + z)" by (simp add: q_def)
    ultimately show ?thesis unfolding qe using b h by (intro demo_qnorm_at) simp_all
  qed
qed

lemma exact_normal_demo: "exact_normal demo_prims demo_Phi_real"
proof -
  have c: "cdf demo_prims a b = Fin (demo_Phi_real b - demo_Phi_real a)"
    if "a \<noteq> NaN" "b \<noteq> NaN" for a b
    using that by (cases a; cases b) (simp_all add: demo_prims_def demo_Phi_def sub_def)
  have s: "demo_Phi_real (Fin (- y)) = 1 - demo_Phi_real (Fin y)" for y
    by (simp add: field_simps)
  have q: "qnorm demo_prims (Fin (demo_Phi_real (Fin y))) = Inr (Fin y)" for y
    using demo_qnorm_Phi[of y] by (simp add: demo_prims_def)
  show ?thesis
    unfolding exact_normal_def using c s q demo_Phi_mono by simp
qed

end
